theory Spec2Isabelle
  imports Main "HOL-Library.Word"
begin

section \<open>Reflex Master PRO: the sketch \<open>ReflexMasterPro.ino\<close> as a state machine\<close>

text \<open>
  The sketch is a polling loop over global variables. The globals become one record,
  every function of the sketch becomes a function on that record, and every call that
  touches the hardware (display, LEDs, speaker, \<open>delay\<close>, and each read of a pin, of the
  clock or of the random generator) appends an event to a log kept in the record, in the
  order of the source statements. The assignment to \<open>gameState\<close> is logged as well, so
  that the order of outputs and state changes inside one call can be stated.

  Integer types follow the AVR boards the wiring of the README is for: \<open>int\<close> is a
  16-bit word, \<open>long\<close> and \<open>unsigned long\<close> are 32-bit words. Signed variables are
  compared with \<open><s\<close> and read with \<open>sint\<close>, unsigned ones with \<open><\<close> and \<open>uint\<close>.
\<close>

subsection \<open>Hardware values and the event log\<close>

datatype level = LOW | HIGH

datatype source = JoyYAxis | JoyXAxis | JoySwitch | Button nat | Clock | Rng

datatype event =
    LcdClear
  | LcdSetCursor "8 word" "8 word"
  | LcdPrint string
  | LcdPrintNum int
  | LcdWrite nat
  | LedWrite nat level
  | Tone nat nat
  | Delay nat
  | SetGameState "16 word"
  | Input source

record session =
  totalRounds :: "16 word"
  gameState :: "16 word"
  menuOption :: "16 word"
  lastMenuOption :: "16 word"
  currentRound :: "16 word"
  startTime :: "32 word"
  reactionTime :: "32 word"
  roundScore :: "16 word"
  totalGameScore :: "32 word"
  highScore :: "32 word"
  lastNavTime :: "32 word"
  currentTarget :: "16 word"
  leds :: "level list"
  trace :: "event list"

text \<open>
  One iteration of the delay loop of \<open>runEnGarde\<close> reads the clock in the loop condition,
  then the three target buttons, then the joystick switch.
\<close>

record poll =
  p_millis :: "32 word"
  p_btn :: "nat \<Rightarrow> level"
  p_joy :: level

text \<open>
  What the hardware offers during one pass of \<open>loop\<close>. \<open>in_millis k\<close> is the reading of
  \<open>millis()\<close> at the \<open>k\<close>-th call site of the handler that runs (in \<open>checkReflexes\<close>: the
  reading taken when button \<open>k\<close> is found pressed). \<open>in_gate\<close> holds the successive
  samples of the three buttons in the release gate of \<open>runEnGarde\<close>, \<open>in_polls\<close> the
  successive iterations of its delay loop, \<open>in_rawDelay\<close> and \<open>in_rawTarget\<close> the values
  of the generator behind its two calls of \<open>random\<close>.
\<close>

record inputs =
  in_joyY :: "16 word"
  in_joyX :: "16 word"
  in_joySw :: level
  in_btn :: "nat \<Rightarrow> level"
  in_millis :: "nat \<Rightarrow> 32 word"
  in_gate :: "(nat \<Rightarrow> level) list"
  in_polls :: "poll list"
  in_rawDelay :: nat
  in_rawTarget :: nat

definition numTargets :: nat where
  "numTargets = 3"

primrec exec :: "('s \<Rightarrow> 's) list \<Rightarrow> 's \<Rightarrow> 's" where
  "exec [] s = s"
| "exec (step # steps) s = exec steps (step s)"

definition emit :: "event \<Rightarrow> session \<Rightarrow> session" where
  "emit e s = s\<lparr>trace := trace s @ [e]\<rparr>"

definition lcd_clear :: "session \<Rightarrow> session" where
  "lcd_clear = emit LcdClear"

definition lcd_setCursor :: "8 word \<Rightarrow> 8 word \<Rightarrow> session \<Rightarrow> session" where
  "lcd_setCursor col row = emit (LcdSetCursor col row)"

definition lcd_print :: "string \<Rightarrow> session \<Rightarrow> session" where
  "lcd_print txt = emit (LcdPrint txt)"

definition lcd_printNum :: "(session \<Rightarrow> int) \<Rightarrow> session \<Rightarrow> session" where
  "lcd_printNum f s = emit (LcdPrintNum (f s)) s"

definition lcd_write :: "nat \<Rightarrow> session \<Rightarrow> session" where
  "lcd_write glyph = emit (LcdWrite glyph)"

definition tone :: "nat \<Rightarrow> nat \<Rightarrow> session \<Rightarrow> session" where
  "tone frequency duration = emit (Tone frequency duration)"

definition delay :: "nat \<Rightarrow> session \<Rightarrow> session" where
  "delay ms = emit (Delay ms)"

definition sample :: "source \<Rightarrow> session \<Rightarrow> session" where
  "sample src = emit (Input src)"

text \<open>
  \<open>digitalWrite(ledPins[i], v)\<close>. The sketch only ever writes indices 0, 1 and 2; the
  list update leaves the pins alone for any other index.
\<close>

definition ledWrite :: "nat \<Rightarrow> level \<Rightarrow> session \<Rightarrow> session" where
  "ledWrite i v s = emit (LedWrite i v) (s\<lparr>leds := (leds s)[i := v]\<rparr>)"

definition setGameState :: "16 word \<Rightarrow> session \<Rightarrow> session" where
  "setGameState g s = emit (SetGameState g) (s\<lparr>gameState := g\<rparr>)"

text \<open>
  \<open>random(howsmall, howbig)\<close> of the Arduino core (\<open>WMath.cpp\<close>), which is not part of the
  sketch: \<open>howsmall\<close> when the range is empty, otherwise \<open>random() % (howbig - howsmall) +
  howsmall\<close>, where \<open>random()\<close> is a non-negative \<open>long\<close> of at most \<open>RANDOM_MAX\<close>. The
  value of \<open>random()\<close> is the parameter \<open>raw\<close>.
\<close>

definition RANDOM_MAX :: nat where
  "RANDOM_MAX = 2147483647"

definition random :: "nat \<Rightarrow> int \<Rightarrow> int \<Rightarrow> int" where
  "random raw howsmall howbig =
     (if howsmall \<ge> howbig then howsmall
      else int raw mod (howbig - howsmall) + howsmall)"

subsection \<open>Display and utilities\<close>

definition drawMenu :: "session \<Rightarrow> session" where
  "drawMenu s0 =
     (let s = lcd_clear s0;
          startItem = (if menuOption s = 2 then 1 else 0 :: 16 word);
          s = fold (\<lambda>i s.
                let itemIndex = startItem + of_nat i;
                    s = lcd_setCursor 1 (of_nat i) s
                in if itemIndex = 0 then exec [lcd_write 0, lcd_print '' INICIAR''] s
                   else if itemIndex = 1 then
                     exec [lcd_write 3, lcd_print '' RONDAS: <'',
                           lcd_printNum (\<lambda>s. sint (totalRounds s)), lcd_print ''>''] s
                   else if itemIndex = 2 then exec [lcd_write 1, lcd_print '' RECORDE''] s
                   else s) [0..<2] s;
          s = lcd_setCursor 0 (ucast (menuOption s - startItem)) s
      in lcd_write 2 s)"

definition introAnimation :: "session \<Rightarrow> session" where
  "introAnimation s0 =
     (let s = exec [lcd_clear, lcd_setCursor 2 0, lcd_print ''REFLEX MASTER'',
                    lcd_setCursor 4 1, lcd_print ''PRO v2.0''] s0
      in fold (\<lambda>k s.
           let s = fold (\<lambda>i. ledWrite i HIGH) [0..<3] s;
               s = exec [tone (400 + k * 200) 100, delay 100] s;
               s = fold (\<lambda>i. ledWrite i LOW) [0..<3] s
           in delay 100 s) [0..<2] s)"

definition showHighScore :: "session \<Rightarrow> session" where
  "showHighScore =
     exec [setGameState 5, lcd_clear, lcd_setCursor 0 0, lcd_write 1,
           lcd_print '' HALL OF FAME '', lcd_write 1, lcd_setCursor 4 1,
           lcd_printNum (\<lambda>s. sint (highScore s)), lcd_print '' pts'']"

definition cancelGame :: "session \<Rightarrow> session" where
  "cancelGame =
     exec [setGameState 0, fold (\<lambda>i. ledWrite i LOW) [0..<3], lcd_clear,
           lcd_print ''CANCELADO'', tone 100 400, delay 1500,
           (\<lambda>s. s\<lparr>lastMenuOption := - 1\<rparr>), drawMenu]"

definition gameOver :: "session \<Rightarrow> session" where
  "gameOver s0 =
     (let s = exec [setGameState 4, lcd_clear] s0
      in if highScore s <s totalGameScore s then
           exec [(\<lambda>s. s\<lparr>highScore := totalGameScore s\<rparr>),
                 lcd_setCursor 1 0, lcd_write 1, lcd_print '' RECORDE! '', lcd_write 1,
                 lcd_setCursor 4 1, lcd_printNum (\<lambda>s. sint (highScore s)),
                 tone 523 150, delay 150, tone 659 150, delay 150,
                 tone 784 150, delay 150, tone 1046 600] s
         else
           exec [lcd_print ''  FIM DO JOGO  '', lcd_setCursor 2 1, lcd_print ''Total: '',
                 lcd_printNum (\<lambda>s. sint (totalGameScore s)), tone 300 600] s)"

subsection \<open>Game functions\<close>

definition startNewGame :: "session \<Rightarrow> session" where
  "startNewGame =
     exec [(\<lambda>s. s\<lparr>currentRound := 1\<rparr>), (\<lambda>s. s\<lparr>totalGameScore := 0\<rparr>),
           setGameState 1, lcd_clear, lcd_setCursor 3 0, lcd_print ''PREPARAR'',
           lcd_setCursor 4 1, lcd_print ''COMBATE!'', delay 1000]"

text \<open>
  The release gate of \<open>runEnGarde\<close>: each iteration reads all three buttons and sleeps
  10 ms; the loop ends after the first iteration that saw every button released
  (\<open>buttonsFree\<close> is the value of the flag after the inner \<open>for\<close> loop). The loop has no
  timeout: when the samples run out before that, the result is \<open>None\<close>.
\<close>

definition buttonsFree :: "(nat \<Rightarrow> level) \<Rightarrow> bool" where
  "buttonsFree g = fold (\<lambda>i free. if g i = LOW then False else free) [0..<numTargets] True"

fun releaseGate :: "(nat \<Rightarrow> level) list \<Rightarrow> session \<Rightarrow> session option" where
  "releaseGate [] s = None"
| "releaseGate (g # gs) s =
     (let s = fold (\<lambda>i. sample (Button i)) [0..<numTargets] s;
          s = delay 10 s
      in if buttonsFree g then Some s else releaseGate gs s)"

text \<open>
  The false-start scan of one iteration of the delay loop: the buttons are read in the
  order of \<open>btnPins\<close>, and the first one found pressed applies the penalty and returns.
  The flag of the result says whether \<open>runEnGarde\<close> has returned.
\<close>

definition falseStart :: "session \<Rightarrow> session" where
  "falseStart =
     exec [tone 100 400, lcd_setCursor 0 1, lcd_print ''  FALTA! -500   '',
           (\<lambda>s. s\<lparr>totalGameScore := totalGameScore s - 500\<rparr>), delay 1500]"

fun cheatScan :: "(nat \<Rightarrow> level) \<Rightarrow> nat list \<Rightarrow> session \<Rightarrow> bool \<times> session" where
  "cheatScan btn [] s = (False, s)"
| "cheatScan btn (i # is) s =
     (let s = sample (Button i) s
      in if btn i = LOW then (True, falseStart s) else cheatScan btn is s)"

datatype exit = FalseStart | Cancelled | Elapsed

fun delayLoop :: "32 word \<Rightarrow> 16 word \<Rightarrow> poll list \<Rightarrow> session \<Rightarrow> (exit \<times> session) option" where
  "delayLoop delayStart randomDelay [] s = None"
| "delayLoop delayStart randomDelay (p # ps) s =
     (let s = sample Clock s
      in if p_millis p - delayStart < scast randomDelay then
           (case cheatScan (p_btn p) [0..<numTargets] s of
              (True, s) \<Rightarrow> Some (FalseStart, s)
            | (False, s) \<Rightarrow>
                (let s = sample JoySwitch s
                 in if p_joy p = LOW then Some (Cancelled, cancelGame s)
                    else delayLoop delayStart randomDelay ps s))
         else Some (Elapsed, s))"

text \<open>The block of \<open>runEnGarde\<close> headed \<open>LIGHT THE TARGET!\<close>.\<close>

definition lightTheTarget :: "inputs \<Rightarrow> session \<Rightarrow> session" where
  "lightTheTarget inp s0 =
     (let s = setGameState 2 s0;
          s = sample Rng s;
          s = s\<lparr>currentTarget := word_of_int (random (in_rawTarget inp) 0 3)\<rparr>;
          s = lcd_setCursor 0 1 s;
          s = (if currentTarget s = 0 then lcd_print ''ESQUERDA! <     '' s else s);
          s = (if currentTarget s = 1 then lcd_print '' CENTRO!  ^     '' s else s);
          s = (if currentTarget s = 2 then lcd_print ''DIREITA!  >     '' s else s);
          s = ledWrite (unat (currentTarget s)) HIGH s;
          s = tone 1500 150 s;
          s = sample Clock s
      in s\<lparr>startTime := in_millis inp 1\<rparr>)"

text \<open>The local \<open>int randomDelay = random(800, 3000)\<close> of \<open>runEnGarde\<close>.\<close>

definition randomDelay :: "inputs \<Rightarrow> 16 word" where
  "randomDelay inp = word_of_int (random (in_rawDelay inp) 800 3000)"

text \<open>The first block of \<open>runEnGarde\<close>: the round, the score, and the LEDs off.\<close>

definition enGardeScreen :: "session \<Rightarrow> session" where
  "enGardeScreen =
     exec [lcd_clear, lcd_print ''Rnd '', lcd_printNum (\<lambda>s. sint (currentRound s)),
           lcd_print ''/'', lcd_printNum (\<lambda>s. sint (totalRounds s)),
           lcd_setCursor 9 0, lcd_print ''Pts:'',
           lcd_printNum (\<lambda>s. sint (totalGameScore s)),
           lcd_setCursor 0 1, lcd_print ''EN GARDE...'',
           fold (\<lambda>i. ledWrite i LOW) [0..<numTargets]]"

text \<open>
  \<open>runEnGarde\<close>, with the way it returned: after a false start, after a cancellation, or
  with the target lit. The result is \<open>None\<close> when the samples of the gate or of the delay
  loop run out before the loop ends.
\<close>

definition runEnGarde_exit :: "inputs \<Rightarrow> session \<Rightarrow> (exit \<times> session) option" where
  "runEnGarde_exit inp s0 =
     (case releaseGate (in_gate inp) (enGardeScreen s0) of
        None \<Rightarrow> None
      | Some s \<Rightarrow>
          (let s = delay 200 s;
               s = sample Rng s;
               s = sample Clock s;
               delayStart = in_millis inp 0
           in case delayLoop delayStart (randomDelay inp) (in_polls inp) s of
                None \<Rightarrow> None
              | Some (Elapsed, s) \<Rightarrow> Some (Elapsed, lightTheTarget inp s)
              | Some (how, s) \<Rightarrow> Some (how, s)))"

definition runEnGarde :: "inputs \<Rightarrow> session \<Rightarrow> session option" where
  "runEnGarde inp s = map_option snd (runEnGarde_exit inp s)"

definition processRoundResult :: "bool \<Rightarrow> session \<Rightarrow> session" where
  "processRoundResult success s0 =
     (let s = lcd_clear s0;
          s = (if success then
                 (let s = (if 1000 < reactionTime s then s\<lparr>roundScore := 0\<rparr>
                           else s\<lparr>roundScore := ucast (1000 - reactionTime s)\<rparr>);
                      s = (if 800 <s roundScore s
                           then exec [tone 1000 80, delay 80, tone 2000 150] s
                           else tone 800 100 s)
                  in exec [lcd_setCursor 0 0, lcd_print ''TOP! '',
                           lcd_printNum (\<lambda>s. uint (reactionTime s)), lcd_print ''ms''] s)
               else
                 exec [(\<lambda>s. s\<lparr>roundScore := - 200\<rparr>), tone 100 300,
                       lcd_setCursor 0 0, lcd_print ''ERRADO!''] s);
          s = s\<lparr>totalGameScore := totalGameScore s + scast (roundScore s)\<rparr>;
          s = exec [lcd_setCursor 0 1, lcd_print ''Score: '',
                    lcd_printNum (\<lambda>s. sint (totalGameScore s))] s
      in setGameState 3 s)"

text \<open>
  \<open>checkReflexes\<close> scans the three buttons; the loop body has no \<open>break\<close>, so every
  button found pressed is processed.
\<close>

definition checkReflexes :: "inputs \<Rightarrow> session \<Rightarrow> session" where
  "checkReflexes inp =
     fold (\<lambda>i s.
       let s = sample (Button i) s
       in if in_btn inp i = LOW then
            (let s = sample Clock s;
                 s = s\<lparr>reactionTime := in_millis inp i - startTime s\<rparr>;
                 s = ledWrite (unat (currentTarget s)) LOW s
             in if of_nat i = currentTarget s then processRoundResult True s
                else processRoundResult False s)
          else s) [0..<numTargets]"

subsection \<open>Menu\<close>

text \<open>
  The blocks of \<open>handleMenu\<close>, in the order of the source: move up, move down, increase
  the rounds, decrease the rounds (the last two only run on option 1), and the selection
  by the joystick click.
\<close>

definition menuUp :: "inputs \<Rightarrow> session \<Rightarrow> session" where
  "menuUp inp s =
     (if in_joyY inp <s 100 \<and> 0 <s menuOption s then
        exec [(\<lambda>s. s\<lparr>menuOption := menuOption s - 1\<rparr>), tone 1000 20,
              sample Clock, (\<lambda>s. s\<lparr>lastNavTime := in_millis inp 1\<rparr>), drawMenu] s
      else s)"

definition menuDown :: "inputs \<Rightarrow> session \<Rightarrow> session" where
  "menuDown inp s =
     (if 900 <s in_joyY inp \<and> menuOption s <s 2 then
        exec [(\<lambda>s. s\<lparr>menuOption := menuOption s + 1\<rparr>), tone 1000 20,
              sample Clock, (\<lambda>s. s\<lparr>lastNavTime := in_millis inp 2\<rparr>), drawMenu] s
      else s)"

definition roundsRight :: "inputs \<Rightarrow> session \<Rightarrow> session" where
  "roundsRight inp s =
     (if 900 <s in_joyX inp then
        exec [(\<lambda>s. s\<lparr>totalRounds := totalRounds s + 1\<rparr>),
              (\<lambda>s. if 99 <s totalRounds s then s\<lparr>totalRounds := 99\<rparr> else s),
              tone 1200 20, sample Clock,
              (\<lambda>s. s\<lparr>lastNavTime := in_millis inp 3\<rparr>), drawMenu] s
      else s)"

definition roundsLeft :: "inputs \<Rightarrow> session \<Rightarrow> session" where
  "roundsLeft inp s =
     (if in_joyX inp <s 100 then
        exec [(\<lambda>s. s\<lparr>totalRounds := totalRounds s - 1\<rparr>),
              (\<lambda>s. if totalRounds s <s 1 then s\<lparr>totalRounds := 1\<rparr> else s),
              tone 800 20, sample Clock,
              (\<lambda>s. s\<lparr>lastNavTime := in_millis inp 4\<rparr>), drawMenu] s
      else s)"

definition menuSelect :: "inputs \<Rightarrow> session \<Rightarrow> session" where
  "menuSelect inp s0 =
     (let s = sample JoySwitch s0
      in if in_joySw inp = LOW then
           (let s = exec [tone 1800 50, delay 100, tone 2000 100] s;
                s = (if menuOption s = 0 then startNewGame s
                     else if menuOption s = 1 then startNewGame s
                     else showHighScore s)
            in delay 500 s)
         else s)"

definition handleMenu :: "inputs \<Rightarrow> session \<Rightarrow> session" where
  "handleMenu inp s0 =
     (let s = exec [sample JoyYAxis, sample JoyXAxis, sample Clock] s0;
          s = (if 200 < in_millis inp 0 - lastNavTime s then
                 (let s = menuUp inp s;
                      s = menuDown inp s
                  in if menuOption s = 1 then roundsLeft inp (roundsRight inp s) else s)
               else s)
      in menuSelect inp s)"

subsection \<open>Start-up and the main loop\<close>

text \<open>The globals as the sketch initialises them; the other globals start at zero.\<close>

definition boot :: session where
  "boot = \<lparr>totalRounds = 10, gameState = 0, menuOption = 0, lastMenuOption = - 1,
           currentRound = 1, startTime = 0, reactionTime = 0, roundScore = 0,
           totalGameScore = 0, highScore = 0, lastNavTime = 0, currentTarget = 0,
           leds = [LOW, LOW, LOW], trace = []\<rparr>"

text \<open>
  The function \<open>setup\<close> of the sketch (named \<open>setup_sketch\<close> here, the plain name being
  a keyword) configures the pins, seeds the generator and loads the glyphs, none of which
  is part of the modelled state, and then shows the intro and the menu.
\<close>

definition setup_sketch :: "session \<Rightarrow> session" where
  "setup_sketch = exec [introAnimation, drawMenu]"

text \<open>The block of \<open>loop\<close> for state 3, the round result.\<close>

definition stateResult :: "session \<Rightarrow> session" where
  "stateResult s0 =
     (let s = delay 800 s0;
          s = fold (\<lambda>i. ledWrite i LOW) [0..<numTargets] s
      in if currentRound s <s totalRounds s then
           setGameState 1 (s\<lparr>currentRound := currentRound s + 1\<rparr>)
         else gameOver s)"

text \<open>
  The block of \<open>loop\<close> for states 4 and 5, game over and high score. The centre button
  is only read when the joystick switch is not pressed.
\<close>

definition stateGameOver :: "inputs \<Rightarrow> session \<Rightarrow> session" where
  "stateGameOver inp s0 =
     (let s = sample JoySwitch s0;
          pressed = (in_joySw inp = LOW);
          s = (if pressed then s else sample (Button 1) s)
      in if pressed \<or> in_btn inp 1 = LOW then
           exec [setGameState 0, (\<lambda>s. s\<lparr>menuOption := 0\<rparr>),
                 (\<lambda>s. s\<lparr>lastMenuOption := - 1\<rparr>), tone 600 100,
                 drawMenu, delay 500] s
         else s)"

definition loop :: "inputs \<Rightarrow> session \<Rightarrow> session option" where
  "loop inp s =
     (if gameState s = 0 then Some (handleMenu inp s)
      else if gameState s = 1 then runEnGarde inp s
      else if gameState s = 2 then Some (checkReflexes inp s)
      else if gameState s = 3 then Some (stateResult s)
      else if gameState s = 4 \<or> gameState s = 5 then Some (stateGameOver inp s)
      else Some s)"

text \<open>The sketch after \<open>setup\<close>: \<open>loop\<close> is called once per element of the input list.\<close>

fun run :: "inputs list \<Rightarrow> session \<Rightarrow> session option" where
  "run [] s = Some s"
| "run (inp # inps) s = (case loop inp s of None \<Rightarrow> None | Some s' \<Rightarrow> run inps s')"

subsection \<open>Concrete inputs\<close>

text \<open>A pass of \<open>loop\<close> during which nothing is touched; the examples below vary it.\<close>

definition idle :: inputs where
  "idle = \<lparr>in_joyY = 512, in_joyX = 512, in_joySw = HIGH, in_btn = (\<lambda>i. HIGH),
           in_millis = (\<lambda>k. 0), in_gate = [], in_polls = [], in_rawDelay = 0,
           in_rawTarget = 0\<rparr>"

text \<open>
  A short session: a game is started, its first round is played (the delay runs out, the
  left target is hit 150 ms later) and the second round is cancelled with the joystick
  switch; back in the menu the stick is pushed down once and held left for nine accepted
  steps.
\<close>

definition released :: "nat \<Rightarrow> level" where
  "released i = HIGH"

definition pressSelect :: inputs where
  "pressSelect = idle\<lparr>in_joySw := LOW\<rparr>"

definition waitOut :: inputs where
  "waitOut = idle\<lparr>in_gate := [released],
                  in_polls := [\<lparr>p_millis = 5000, p_btn = released, p_joy = HIGH\<rparr>],
                  in_millis := (\<lambda>k. if k = 0 then 0 else 5000)\<rparr>"

definition hitLeft :: inputs where
  "hitLeft = idle\<lparr>in_btn := (\<lambda>i. if i = 0 then LOW else HIGH), in_millis := (\<lambda>k. 5150)\<rparr>"

definition cancelRound :: inputs where
  "cancelRound = idle\<lparr>in_gate := [released],
                      in_polls := [\<lparr>p_millis = 10, p_btn = released, p_joy = LOW\<rparr>]\<rparr>"

definition stickDownLeft :: "32 word \<Rightarrow> inputs" where
  "stickDownLeft now = idle\<lparr>in_joyY := 1000, in_joyX := 0, in_millis := (\<lambda>k. now)\<rparr>"

definition stickLeft :: "32 word \<Rightarrow> inputs" where
  "stickLeft now = idle\<lparr>in_joyX := 0, in_millis := (\<lambda>k. now)\<rparr>"

definition cancelledThenShortened :: "inputs list" where
  "cancelledThenShortened =
     [pressSelect, waitOut, hitLeft, idle, cancelRound, stickDownLeft 1000,
      stickLeft 2000, stickLeft 3000, stickLeft 4000, stickLeft 5000,
      stickLeft 6000, stickLeft 7000, stickLeft 8000, stickLeft 9000]"

text \<open>
  A false start: the gate sees the centre button held at its first sample and released
  at the second; the first poll of the delay loop is still, and at the second the centre
  button and the joystick switch are both pressed, 20 ms into a wait of 800 ms.
\<close>

definition stillPoll :: "32 word \<Rightarrow> poll" where
  "stillPoll now = \<lparr>p_millis = now, p_btn = released, p_joy = HIGH\<rparr>"

definition centreAndSwitch :: poll where
  "centreAndSwitch = \<lparr>p_millis = 20, p_btn = (\<lambda>i. if i = 1 then LOW else HIGH), p_joy = LOW\<rparr>"

definition earlyPress :: inputs where
  "earlyPress = idle\<lparr>in_gate := [\<lambda>i. if i = 1 then LOW else HIGH, released],
                     in_polls := [stillPoll 10, centreAndSwitch]\<rparr>"

subsection \<open>Predicates of the statements\<close>

text \<open>A game is in progress in the states 1 to 4 (preparation, action, result, game over).\<close>

definition inGame :: "session \<Rightarrow> bool" where
  "inGame s = (gameState s = 1 \<or> gameState s = 2 \<or> gameState s = 3 \<or> gameState s = 4)"

text \<open>
  Some target button reads \<open>LOW\<close>; a poll of the delay loop falls inside the delay
  window; a poll in which nothing is pressed; a gate that sees all buttons released at
  some sample.
\<close>

definition targetPressed :: "(nat \<Rightarrow> level) \<Rightarrow> bool" where
  "targetPressed btn = (\<exists>i\<in>set [0..<numTargets]. btn i = LOW)"

definition inWindow :: "inputs \<Rightarrow> poll \<Rightarrow> bool" where
  "inWindow inp p = (p_millis p - in_millis inp 0 < scast (randomDelay inp))"

definition quiet :: "poll \<Rightarrow> bool" where
  "quiet p = (\<not> targetPressed (p_btn p) \<and> p_joy p = HIGH)"

definition gateOpens :: "(nat \<Rightarrow> level) list \<Rightarrow> bool" where
  "gateOpens gs = (\<exists>g\<in>set gs. \<not> targetPressed g)"

text \<open>The events logged between two states, and the events that read the hardware.\<close>

definition newEvents :: "session \<Rightarrow> session \<Rightarrow> event list" where
  "newEvents s s' = drop (length (trace s)) (trace s')"

fun isInput :: "event \<Rightarrow> bool" where
  "isInput (Input src) = True"
| "isInput e = False"

fun isStateChange :: "event \<Rightarrow> bool" where
  "isStateChange (SetGameState g) = True"
| "isStateChange e = False"


text \<open>The state with further events logged.\<close>

definition logged :: "event list \<Rightarrow> session \<Rightarrow> session" where
  "logged evs s = s\<lparr>trace := trace s @ evs\<rparr>"

section \<open>Auxiliary facts\<close>

subsection \<open>Loop ranges and word arithmetic\<close>

lemma targets_upt: "[0..<numTargets] = [0, 1, 2]"
  by (simp add: numTargets_def upt_rec)

lemma upt3: "[0..<3] = [0, 1, 2::nat]"
  by (simp add: upt_rec)

lemmas prim_defs = emit_def lcd_clear_def lcd_setCursor_def lcd_print_def lcd_printNum_def
  lcd_write_def tone_def delay_def sample_def ledWrite_def setGameState_def

lemma sint_ucast_int:
  assumes "uint (w :: 32 word) < 2 ^ 15"
  shows "sint (ucast w :: 16 word) = uint w"
proof -
  have "- (2 ^ 15) \<le> uint w"
    by (rule order_trans [OF _ uint_nonnegative]) simp
  with assms show ?thesis
    by (simp add: signed_ucast_eq signed_take_bit_int_eq_self)
qed

lemma uint_1000_minus: "uint (r :: 32 word) \<le> 1000 \<Longrightarrow> uint (1000 - r) = 1000 - uint r"
  using uint_sub_lem [of r 1000] by simp

lemma hit_score_word:
  "roundScore (processRoundResult True s) =
     (if 1000 < reactionTime s then 0 else ucast (1000 - reactionTime s))"
  by (simp add: processRoundResult_def prim_defs Let_def)

lemma hit_score_int:
  "sint (roundScore (processRoundResult True s)) =
     (if uint (reactionTime s) \<le> 1000 then 1000 - uint (reactionTime s) else 0)"
proof (cases "uint (reactionTime s) \<le> 1000")
  case True
  then have diff: "uint (1000 - reactionTime s) = 1000 - uint (reactionTime s)"
    by (rule uint_1000_minus)
  then have "uint (1000 - reactionTime s) \<le> 1000"
    by simp
  then have "uint (1000 - reactionTime s) < 2 ^ 15"
    by simp
  then have "sint (ucast (1000 - reactionTime s) :: 16 word) = uint (1000 - reactionTime s)"
    by (rule sint_ucast_int)
  with True diff show ?thesis
    by (simp add: hit_score_word word_less_alt)
next
  case False
  then show ?thesis
    by (simp add: hit_score_word word_less_alt)
qed

lemma all_targets: "(\<forall>j<numTargets. P j) = (P 0 \<and> P 1 \<and> P 2)"
  by (simp add: numTargets_def numeral_3_eq_3 numeral_2_eq_2 All_less_Suc conj_ac)

lemma less_targets: "(i < numTargets) = (i = 0 \<or> i = 1 \<or> i = 2)"
  by (auto simp: numTargets_def)

subsection \<open>What each function does to the globals\<close>

lemma upt2: "[0..<2] = [0, 1::nat]"
  by (simp add: upt_rec)

lemma emit_fields [simp]:
  "totalRounds (emit e s) = totalRounds s"
  "gameState (emit e s) = gameState s"
  "currentRound (emit e s) = currentRound s"
  "totalGameScore (emit e s) = totalGameScore s"
  "highScore (emit e s) = highScore s"
  "menuOption (emit e s) = menuOption s"
  "lastNavTime (emit e s) = lastNavTime s"
  by (simp_all add: emit_def)

lemma lcd_clear_fields [simp]:
  "totalRounds (lcd_clear s) = totalRounds s"
  "gameState (lcd_clear s) = gameState s"
  "currentRound (lcd_clear s) = currentRound s"
  "totalGameScore (lcd_clear s) = totalGameScore s"
  "highScore (lcd_clear s) = highScore s"
  "menuOption (lcd_clear s) = menuOption s"
  "lastNavTime (lcd_clear s) = lastNavTime s"
  by (simp_all add: prim_defs)

lemma lcd_setCursor_fields [simp]:
  "totalRounds (lcd_setCursor col row s) = totalRounds s"
  "gameState (lcd_setCursor col row s) = gameState s"
  "currentRound (lcd_setCursor col row s) = currentRound s"
  "totalGameScore (lcd_setCursor col row s) = totalGameScore s"
  "highScore (lcd_setCursor col row s) = highScore s"
  "menuOption (lcd_setCursor col row s) = menuOption s"
  "lastNavTime (lcd_setCursor col row s) = lastNavTime s"
  by (simp_all add: prim_defs)

lemma lcd_print_fields [simp]:
  "totalRounds (lcd_print txt s) = totalRounds s"
  "gameState (lcd_print txt s) = gameState s"
  "currentRound (lcd_print txt s) = currentRound s"
  "totalGameScore (lcd_print txt s) = totalGameScore s"
  "highScore (lcd_print txt s) = highScore s"
  "menuOption (lcd_print txt s) = menuOption s"
  "lastNavTime (lcd_print txt s) = lastNavTime s"
  by (simp_all add: prim_defs)

lemma lcd_printNum_fields [simp]:
  "totalRounds (lcd_printNum f s) = totalRounds s"
  "gameState (lcd_printNum f s) = gameState s"
  "currentRound (lcd_printNum f s) = currentRound s"
  "totalGameScore (lcd_printNum f s) = totalGameScore s"
  "highScore (lcd_printNum f s) = highScore s"
  "menuOption (lcd_printNum f s) = menuOption s"
  "lastNavTime (lcd_printNum f s) = lastNavTime s"
  by (simp_all add: prim_defs)

lemma lcd_write_fields [simp]:
  "totalRounds (lcd_write g s) = totalRounds s"
  "gameState (lcd_write g s) = gameState s"
  "currentRound (lcd_write g s) = currentRound s"
  "totalGameScore (lcd_write g s) = totalGameScore s"
  "highScore (lcd_write g s) = highScore s"
  "menuOption (lcd_write g s) = menuOption s"
  "lastNavTime (lcd_write g s) = lastNavTime s"
  by (simp_all add: prim_defs)

lemma tone_fields [simp]:
  "totalRounds (tone fr du s) = totalRounds s"
  "gameState (tone fr du s) = gameState s"
  "currentRound (tone fr du s) = currentRound s"
  "totalGameScore (tone fr du s) = totalGameScore s"
  "highScore (tone fr du s) = highScore s"
  "menuOption (tone fr du s) = menuOption s"
  "lastNavTime (tone fr du s) = lastNavTime s"
  by (simp_all add: prim_defs)

lemma delay_fields [simp]:
  "totalRounds (delay ms s) = totalRounds s"
  "gameState (delay ms s) = gameState s"
  "currentRound (delay ms s) = currentRound s"
  "totalGameScore (delay ms s) = totalGameScore s"
  "highScore (delay ms s) = highScore s"
  "menuOption (delay ms s) = menuOption s"
  "lastNavTime (delay ms s) = lastNavTime s"
  by (simp_all add: prim_defs)

lemma sample_fields [simp]:
  "totalRounds (sample src s) = totalRounds s"
  "gameState (sample src s) = gameState s"
  "currentRound (sample src s) = currentRound s"
  "totalGameScore (sample src s) = totalGameScore s"
  "highScore (sample src s) = highScore s"
  "menuOption (sample src s) = menuOption s"
  "lastNavTime (sample src s) = lastNavTime s"
  by (simp_all add: prim_defs)

lemma ledWrite_fields [simp]:
  "totalRounds (ledWrite i v s) = totalRounds s"
  "gameState (ledWrite i v s) = gameState s"
  "currentRound (ledWrite i v s) = currentRound s"
  "totalGameScore (ledWrite i v s) = totalGameScore s"
  "highScore (ledWrite i v s) = highScore s"
  "menuOption (ledWrite i v s) = menuOption s"
  "lastNavTime (ledWrite i v s) = lastNavTime s"
  by (simp_all add: prim_defs)

lemma setGameState_fields [simp]:
  "totalRounds (setGameState g s) = totalRounds s"
  "gameState (setGameState g s) = g"
  "currentRound (setGameState g s) = currentRound s"
  "totalGameScore (setGameState g s) = totalGameScore s"
  "highScore (setGameState g s) = highScore s"
  "menuOption (setGameState g s) = menuOption s"
  "lastNavTime (setGameState g s) = lastNavTime s"
  by (simp_all add: prim_defs)

lemma drawMenu_fields [simp]:
  "totalRounds (drawMenu s) = totalRounds s"
  "gameState (drawMenu s) = gameState s"
  "currentRound (drawMenu s) = currentRound s"
  "totalGameScore (drawMenu s) = totalGameScore s"
  "highScore (drawMenu s) = highScore s"
  "menuOption (drawMenu s) = menuOption s"
  "lastNavTime (drawMenu s) = lastNavTime s"
  by (simp_all add: drawMenu_def Let_def upt2 prim_defs)

lemma showHighScore_fields [simp]:
  "totalRounds (showHighScore s) = totalRounds s"
  "gameState (showHighScore s) = 5"
  "currentRound (showHighScore s) = currentRound s"
  "totalGameScore (showHighScore s) = totalGameScore s"
  "highScore (showHighScore s) = highScore s"
  "menuOption (showHighScore s) = menuOption s"
  "lastNavTime (showHighScore s) = lastNavTime s"
  by (simp_all add: showHighScore_def prim_defs)

lemma cancelGame_fields [simp]:
  "totalRounds (cancelGame s) = totalRounds s"
  "gameState (cancelGame s) = 0"
  "currentRound (cancelGame s) = currentRound s"
  "totalGameScore (cancelGame s) = totalGameScore s"
  "highScore (cancelGame s) = highScore s"
  "menuOption (cancelGame s) = menuOption s"
  "lastNavTime (cancelGame s) = lastNavTime s"
  by (simp_all add: cancelGame_def upt3 prim_defs)

lemma gameOver_fields [simp]:
  "totalRounds (gameOver s) = totalRounds s"
  "gameState (gameOver s) = 4"
  "currentRound (gameOver s) = currentRound s"
  "totalGameScore (gameOver s) = totalGameScore s"
  "highScore (gameOver s) = (if highScore s <s totalGameScore s then totalGameScore s else highScore s)"
  "menuOption (gameOver s) = menuOption s"
  "lastNavTime (gameOver s) = lastNavTime s"
  by (simp_all add: gameOver_def Let_def prim_defs)

lemma startNewGame_fields [simp]:
  "totalRounds (startNewGame s) = totalRounds s"
  "gameState (startNewGame s) = 1"
  "currentRound (startNewGame s) = 1"
  "totalGameScore (startNewGame s) = 0"
  "highScore (startNewGame s) = highScore s"
  "menuOption (startNewGame s) = menuOption s"
  "lastNavTime (startNewGame s) = lastNavTime s"
  by (simp_all add: startNewGame_def prim_defs)

lemma falseStart_fields [simp]:
  "totalRounds (falseStart s) = totalRounds s"
  "gameState (falseStart s) = gameState s"
  "currentRound (falseStart s) = currentRound s"
  "totalGameScore (falseStart s) = totalGameScore s - 500"
  "highScore (falseStart s) = highScore s"
  "menuOption (falseStart s) = menuOption s"
  "lastNavTime (falseStart s) = lastNavTime s"
  by (simp_all add: falseStart_def prim_defs)

lemma processRoundResult_fields [simp]:
  "totalRounds (processRoundResult b s) = totalRounds s"
  "gameState (processRoundResult b s) = 3"
  "currentRound (processRoundResult b s) = currentRound s"
  "totalGameScore (processRoundResult b s) = totalGameScore s + scast (roundScore (processRoundResult b s))"
  "highScore (processRoundResult b s) = highScore s"
  "menuOption (processRoundResult b s) = menuOption s"
  "lastNavTime (processRoundResult b s) = lastNavTime s"
  by (simp_all add: processRoundResult_def Let_def prim_defs)

lemma lightTheTarget_fields [simp]:
  "totalRounds (lightTheTarget inp s) = totalRounds s"
  "gameState (lightTheTarget inp s) = 2"
  "currentRound (lightTheTarget inp s) = currentRound s"
  "totalGameScore (lightTheTarget inp s) = totalGameScore s"
  "highScore (lightTheTarget inp s) = highScore s"
  "menuOption (lightTheTarget inp s) = menuOption s"
  "lastNavTime (lightTheTarget inp s) = lastNavTime s"
  by (simp_all add: lightTheTarget_def Let_def prim_defs)
lemma enGardeScreen_fields [simp]:
  "totalRounds (enGardeScreen s) = totalRounds s"
  "gameState (enGardeScreen s) = gameState s"
  "currentRound (enGardeScreen s) = currentRound s"
  "totalGameScore (enGardeScreen s) = totalGameScore s"
  "highScore (enGardeScreen s) = highScore s"
  "menuOption (enGardeScreen s) = menuOption s"
  "lastNavTime (enGardeScreen s) = lastNavTime s"
  by (simp_all add: enGardeScreen_def targets_upt prim_defs)

lemma menuUp_fields [simp]:
  "totalRounds (menuUp inp s) = totalRounds s"
  "gameState (menuUp inp s) = gameState s"
  "currentRound (menuUp inp s) = currentRound s"
  "totalGameScore (menuUp inp s) = totalGameScore s"
  "highScore (menuUp inp s) = highScore s"
  by (simp_all add: menuUp_def)

lemma menuDown_fields [simp]:
  "totalRounds (menuDown inp s) = totalRounds s"
  "gameState (menuDown inp s) = gameState s"
  "currentRound (menuDown inp s) = currentRound s"
  "totalGameScore (menuDown inp s) = totalGameScore s"
  "highScore (menuDown inp s) = highScore s"
  by (simp_all add: menuDown_def)

lemma roundsRight_fields [simp]:
  "totalRounds (roundsRight inp s) =
     (if 900 <s in_joyX inp
      then if 99 <s totalRounds s + 1 then 99 else totalRounds s + 1
      else totalRounds s)"
  "gameState (roundsRight inp s) = gameState s"
  "currentRound (roundsRight inp s) = currentRound s"
  "totalGameScore (roundsRight inp s) = totalGameScore s"
  "highScore (roundsRight inp s) = highScore s"
  "menuOption (roundsRight inp s) = menuOption s"
  by (simp_all add: roundsRight_def)

lemma roundsLeft_fields [simp]:
  "totalRounds (roundsLeft inp s) =
     (if in_joyX inp <s 100
      then if totalRounds s - 1 <s 1 then 1 else totalRounds s - 1
      else totalRounds s)"
  "gameState (roundsLeft inp s) = gameState s"
  "currentRound (roundsLeft inp s) = currentRound s"
  "totalGameScore (roundsLeft inp s) = totalGameScore s"
  "highScore (roundsLeft inp s) = highScore s"
  "menuOption (roundsLeft inp s) = menuOption s"
  by (simp_all add: roundsLeft_def)

lemma menuSelect_fields [simp]:
  "totalRounds (menuSelect inp s) = totalRounds s"
  "highScore (menuSelect inp s) = highScore s"
  by (simp_all add: menuSelect_def Let_def)

lemma menuSelect_state:
  "(gameState (menuSelect inp s) = gameState s \<and> currentRound (menuSelect inp s) = currentRound s)
   \<or> gameState (menuSelect inp s) = 5
   \<or> (gameState (menuSelect inp s) = 1 \<and> currentRound (menuSelect inp s) = 1)"
  by (simp add: menuSelect_def Let_def)

lemma stateResult_fields [simp]:
  "totalRounds (stateResult s) = totalRounds s"
  "gameState (stateResult s) = (if currentRound s <s totalRounds s then 1 else 4)"
  "currentRound (stateResult s) =
     (if currentRound s <s totalRounds s then currentRound s + 1 else currentRound s)"
  "totalGameScore (stateResult s) = totalGameScore s"
  "menuOption (stateResult s) = menuOption s"
  "lastNavTime (stateResult s) = lastNavTime s"
  "highScore (stateResult s) =
     (if currentRound s <s totalRounds s then highScore s
      else if highScore s <s totalGameScore s then totalGameScore s else highScore s)"
  by (simp_all add: stateResult_def Let_def targets_upt)

lemma stateGameOver_fields [simp]:
  "totalRounds (stateGameOver inp s) = totalRounds s"
  "gameState (stateGameOver inp s) =
     (if in_joySw inp = LOW \<or> in_btn inp 1 = LOW then 0 else gameState s)"
  "currentRound (stateGameOver inp s) = currentRound s"
  "totalGameScore (stateGameOver inp s) = totalGameScore s"
  "highScore (stateGameOver inp s) = highScore s"
  by (simp_all add: stateGameOver_def Let_def)

lemma sample_fields2 [simp]:
  "roundScore (sample src s) = roundScore s"
  "reactionTime (sample src s) = reactionTime s"
  "currentTarget (sample src s) = currentTarget s"
  "startTime (sample src s) = startTime s"
  by (simp_all add: prim_defs)

lemma ledWrite_fields2 [simp]:
  "roundScore (ledWrite i v s) = roundScore s"
  "reactionTime (ledWrite i v s) = reactionTime s"
  "currentTarget (ledWrite i v s) = currentTarget s"
  "startTime (ledWrite i v s) = startTime s"
  by (simp_all add: prim_defs)

lemma processRoundResult_fields2 [simp]:
  "roundScore (processRoundResult b s) = (if b then if 1000 < reactionTime s then 0 else ucast (1000 - reactionTime s) else - 200)"
  "reactionTime (processRoundResult b s) = reactionTime s"
  "currentTarget (processRoundResult b s) = currentTarget s"
  "startTime (processRoundResult b s) = startTime s"
  by (simp_all add: processRoundResult_def Let_def prim_defs)

lemma checkReflexes_single:
  assumes "i < numTargets" "in_btn inp i = LOW"
    and "\<forall>j<numTargets. j \<noteq> i \<longrightarrow> in_btn inp j \<noteq> LOW"
  shows "roundScore (checkReflexes inp s) =
     roundScore (processRoundResult (of_nat i = currentTarget s)
        (s\<lparr>reactionTime := in_millis inp i - startTime s\<rparr>))"
proof -
  from assms(1) consider "i = 0" | "i = 1" | "i = 2"
    by (auto simp: less_targets)
  then show ?thesis
  proof cases
    case 1
    with assms have "in_btn inp 0 = LOW" "in_btn inp 1 \<noteq> LOW" "in_btn inp 2 \<noteq> LOW"
      by (simp_all add: all_targets)
    with 1 show ?thesis
      by (simp add: checkReflexes_def targets_upt Let_def)
  next
    case 2
    with assms have "in_btn inp 0 \<noteq> LOW" "in_btn inp 1 = LOW" "in_btn inp 2 \<noteq> LOW"
      by (simp_all add: all_targets)
    with 2 show ?thesis
      by (simp add: checkReflexes_def targets_upt Let_def)
  next
    case 3
    with assms have "in_btn inp 0 \<noteq> LOW" "in_btn inp 1 \<noteq> LOW" "in_btn inp 2 = LOW"
      by (simp_all add: all_targets)
    with 3 show ?thesis
      by (simp add: checkReflexes_def targets_upt Let_def)
  qed
qed

lemma checkReflexes_fields [simp]:
  "totalRounds (checkReflexes inp s) = totalRounds s"
  "menuOption (checkReflexes inp s) = menuOption s"
  "lastNavTime (checkReflexes inp s) = lastNavTime s"
  "currentRound (checkReflexes inp s) = currentRound s"
  "highScore (checkReflexes inp s) = highScore s"
  by (simp_all add: checkReflexes_def targets_upt Let_def)

lemma checkReflexes_state:
  "gameState (checkReflexes inp s) = gameState s \<or> gameState (checkReflexes inp s) = 3"
  by (simp add: checkReflexes_def targets_upt Let_def)

lemma releaseGate_fields:
  "releaseGate gs s = Some s' \<Longrightarrow>
     totalRounds s' = totalRounds s \<and> gameState s' = gameState s
     \<and> currentRound s' = currentRound s \<and> totalGameScore s' = totalGameScore s
     \<and> highScore s' = highScore s \<and> menuOption s' = menuOption s \<and> lastNavTime s' = lastNavTime s"
proof (induction gs arbitrary: s)
  case Nil
  then show ?case by simp
next
  case (Cons g gs)
  show ?case
  proof (cases "buttonsFree g")
    case True
    with Cons.prems show ?thesis
      by (auto simp: Let_def targets_upt)
  next
    case False
    with Cons.prems have "releaseGate gs (delay 10 (fold (\<lambda>i. sample (Button i)) [0..<numTargets] s)) = Some s'"
      by (simp add: Let_def)
    from Cons.IH [OF this] show ?thesis
      by (simp add: targets_upt)
  qed
qed

lemma cheatScan_fields:
  "cheatScan btn is s = (b, s') \<Longrightarrow>
     totalRounds s' = totalRounds s \<and> gameState s' = gameState s
     \<and> currentRound s' = currentRound s \<and> highScore s' = highScore s
     \<and> menuOption s' = menuOption s \<and> lastNavTime s' = lastNavTime s
     \<and> totalGameScore s' = (if b then totalGameScore s - 500 else totalGameScore s)"
proof (induction "is" arbitrary: s)
  case Nil
  then show ?case by simp
next
  case (Cons i "is")
  show ?case
  proof (cases "btn i = LOW")
    case True
    with Cons.prems show ?thesis
      by (auto simp: Let_def)
  next
    case False
    with Cons.prems have "cheatScan btn is (sample (Button i) s) = (b, s')"
      by (simp add: Let_def)
    from Cons.IH [OF this] show ?thesis
      by simp
  qed
qed

lemma delayLoop_fields:
  "delayLoop ds rd ps s = Some (how, s') \<Longrightarrow>
     totalRounds s' = totalRounds s \<and> currentRound s' = currentRound s
     \<and> highScore s' = highScore s \<and> menuOption s' = menuOption s \<and> lastNavTime s' = lastNavTime s
     \<and> gameState s' = (if how = Cancelled then 0 else gameState s)
     \<and> totalGameScore s' = (if how = FalseStart then totalGameScore s - 500 else totalGameScore s)"
proof (induction ps arbitrary: s)
  case Nil
  then show ?case by simp
next
  case (Cons p ps)
  show ?case
  proof (cases "p_millis p - ds < scast rd")
    case False
    with Cons.prems show ?thesis
      by (auto simp: Let_def)
  next
    case True
    obtain b s1 where scan: "cheatScan (p_btn p) [0..<numTargets] (sample Clock s) = (b, s1)"
      by (cases "cheatScan (p_btn p) [0..<numTargets] (sample Clock s)")
    note f1 = cheatScan_fields [OF scan]
    show ?thesis
    proof (cases b)
      case True
      with Cons.prems \<open>p_millis p - ds < scast rd\<close> scan f1 show ?thesis
        by (auto simp: Let_def)
    next
      case False
      note nb = this
      show ?thesis
      proof (cases "p_joy p = LOW")
        case True
        with Cons.prems \<open>p_millis p - ds < scast rd\<close> scan f1 nb show ?thesis
          by (auto simp: Let_def)
      next
        case False
        with Cons.prems \<open>p_millis p - ds < scast rd\<close> scan nb
        have "delayLoop ds rd ps (sample JoySwitch s1) = Some (how, s')"
          by (simp add: Let_def)
        from Cons.IH [OF this] f1 nb show ?thesis
          by simp
      qed
    qed
  qed
qed

lemma runEnGarde_exit_fields:
  assumes "runEnGarde_exit inp s = Some (how, s')"
  shows "totalRounds s' = totalRounds s \<and> currentRound s' = currentRound s
     \<and> highScore s' = highScore s \<and> menuOption s' = menuOption s \<and> lastNavTime s' = lastNavTime s
     \<and> gameState s' = (case how of Cancelled \<Rightarrow> 0 | Elapsed \<Rightarrow> 2 | FalseStart \<Rightarrow> gameState s)
     \<and> totalGameScore s' = (if how = FalseStart then totalGameScore s - 500 else totalGameScore s)"
proof (cases "releaseGate (in_gate inp) (enGardeScreen s)")
  case None
  with assms show ?thesis
    by (simp add: runEnGarde_exit_def)
next
  case (Some s1)
  note f1 = releaseGate_fields [OF Some]
  show ?thesis
  proof (cases "delayLoop (in_millis inp 0) (randomDelay inp) (in_polls inp)
           (sample Clock (sample Rng (delay 200 s1)))")
    case None
    with assms Some show ?thesis
      by (simp add: runEnGarde_exit_def Let_def)
  next
    case (Some r)
    obtain h2 s2 where r: "r = (h2, s2)"
      by (cases r)
    note f2 = delayLoop_fields [OF Some [unfolded r]]
    from assms \<open>releaseGate (in_gate inp) (enGardeScreen s) = Some s1\<close> Some r
    have "(how, s') = (if h2 = Elapsed then (Elapsed, lightTheTarget inp s2) else (h2, s2))"
      by (cases h2) (simp_all add: runEnGarde_exit_def Let_def)
    with f1 f2 show ?thesis
      by (cases h2) (auto split: if_splits)
  qed
qed

lemma handleMenu_highScore [simp]: "highScore (handleMenu inp s) = highScore s"
  by (simp add: handleMenu_def Let_def)

lemma handleMenu_state:
  "(gameState (handleMenu inp s) = gameState s \<and> currentRound (handleMenu inp s) = currentRound s)
   \<or> gameState (handleMenu inp s) = 5
   \<or> (gameState (handleMenu inp s) = 1 \<and> currentRound (handleMenu inp s) = 1)"
proof -
  define s1 where "s1 = (let s = exec [sample JoyYAxis, sample JoyXAxis, sample Clock] s;
          s = (if 200 < in_millis inp 0 - lastNavTime s then
                 (let s = menuUp inp s;
                      s = menuDown inp s
                  in if menuOption s = 1 then roundsLeft inp (roundsRight inp s) else s)
               else s) in s)"
  have "gameState s1 = gameState s" "currentRound s1 = currentRound s"
    by (simp_all add: s1_def Let_def)
  moreover have "handleMenu inp s = menuSelect inp s1"
    by (simp add: handleMenu_def s1_def Let_def)
  ultimately show ?thesis
    using menuSelect_state [of inp s1] by simp
qed

lemma sint_inc: "sint tr < 32767 \<Longrightarrow> sint (tr + 1 :: 16 word) = sint tr + 1"
  using sint_ge [of tr]
  by (simp add: sint_word_ariths signed_take_bit_int_eq_self)

lemma sint_dec: "- 32768 < sint tr \<Longrightarrow> sint (tr - 1 :: 16 word) = sint tr - 1"
  using sint_lt [of tr]
  by (simp add: sint_word_ariths signed_take_bit_int_eq_self)

lemma clamp_up:
  fixes tr :: "16 word"
  assumes "1 \<le>s tr" "tr \<le>s 99"
  shows "1 \<le>s (if 99 <s tr + 1 then 99 else tr + 1)"
    and "(if 99 <s tr + 1 then 99 else tr + 1) \<le>s 99"
  using assms by (simp_all add: word_sle_eq word_sless_alt sint_inc)

lemma clamp_down:
  fixes tr :: "16 word"
  assumes "1 \<le>s tr" "tr \<le>s 99"
  shows "1 \<le>s (if tr - 1 <s 1 then 1 else tr - 1)"
    and "(if tr - 1 <s 1 then 1 else tr - 1) \<le>s 99"
  using assms by (simp_all add: word_sle_eq word_sless_alt sint_dec)

lemma clamp_at_99: "(if 99 <s (99 :: 16 word) + 1 then 99 else 99 + 1) = (99 :: 16 word)"
  by (simp add: word_sless_alt)

lemma joyX_exclusive: "900 <s (x :: 16 word) \<Longrightarrow> \<not> x <s 100"
  by (simp add: word_sless_alt)

lemma handleMenu_totalRounds:
  "totalRounds (handleMenu inp s) = totalRounds s
   \<or> (900 <s in_joyX inp \<and>
       totalRounds (handleMenu inp s) = (if 99 <s totalRounds s + 1 then 99 else totalRounds s + 1))
   \<or> (in_joyX inp <s 100 \<and>
       totalRounds (handleMenu inp s) = (if totalRounds s - 1 <s 1 then 1 else totalRounds s - 1))"
  using joyX_exclusive [of "in_joyX inp"]
  by (simp add: handleMenu_def Let_def)

lemma handleMenu_rounds_range:
  assumes "1 \<le>s totalRounds s" "totalRounds s \<le>s 99"
  shows "1 \<le>s totalRounds (handleMenu inp s) \<and> totalRounds (handleMenu inp s) \<le>s 99"
  using handleMenu_totalRounds [of inp s] clamp_up [OF assms] clamp_down [OF assms] assms
  by auto

lemma runEnGarde_fields:
  assumes "runEnGarde inp s = Some s'"
  shows "totalRounds s' = totalRounds s \<and> currentRound s' = currentRound s
     \<and> highScore s' = highScore s
     \<and> (gameState s' = gameState s \<or> gameState s' = 0 \<or> gameState s' = 2)"
proof -
  from assms obtain how where "runEnGarde_exit inp s = Some (how, s')"
    by (auto simp: runEnGarde_def)
  from runEnGarde_exit_fields [OF this] show ?thesis
    by (cases how) simp_all
qed

lemma loop_highScore:
  assumes "loop inp s = Some s'"
  shows "highScore s \<le>s highScore s'"
proof -
  have "gameState s = 1 \<Longrightarrow> highScore s' = highScore s"
    using assms runEnGarde_fields [of inp s s'] by (simp add: loop_def)
  with assms show ?thesis
    by (auto simp: loop_def word_sle_eq word_sless_alt split: if_splits)
qed

lemma loop_totalRounds:
  assumes "loop inp s = Some s'" "1 \<le>s totalRounds s" "totalRounds s \<le>s 99"
  shows "1 \<le>s totalRounds s' \<and> totalRounds s' \<le>s 99"
proof -
  have "gameState s = 1 \<Longrightarrow> totalRounds s' = totalRounds s"
    using assms runEnGarde_fields [of inp s s'] by (simp add: loop_def)
  with assms handleMenu_rounds_range [of s inp] show ?thesis
    by (auto simp: loop_def split: if_splits)
qed

lemma run_highScore:
  "run inps s = Some s' \<Longrightarrow> highScore s \<le>s highScore s'"
proof (induction inps arbitrary: s)
  case Nil
  then show ?case by (simp add: word_sle_eq)
next
  case (Cons inp inps)
  then obtain s1 where step: "loop inp s = Some s1" and rest: "run inps s1 = Some s'"
    by (auto split: option.splits)
  from loop_highScore [OF step] Cons.IH [OF rest] show ?case
    by (simp add: word_sle_eq)
qed

lemma run_totalRounds:
  "run inps s = Some s' \<Longrightarrow> 1 \<le>s totalRounds s \<Longrightarrow> totalRounds s \<le>s 99
     \<Longrightarrow> 1 \<le>s totalRounds s' \<and> totalRounds s' \<le>s 99"
proof (induction inps arbitrary: s)
  case Nil
  then show ?case by simp
next
  case (Cons inp inps)
  then obtain s1 where step: "loop inp s = Some s1" and rest: "run inps s1 = Some s'"
    by (auto split: option.splits)
  from loop_totalRounds [OF step Cons.prems(2,3)] Cons.IH [OF rest] show ?case
    by simp
qed

lemma random_delay_bounds: "800 \<le> random raw 800 3000 \<and> random raw 800 3000 \<le> 2999"
proof -
  have "0 \<le> int raw mod 2200" "int raw mod 2200 < 2200"
    by simp_all
  then show ?thesis
    by (simp add: random_def)
qed

lemma sint_randomDelay: "sint (randomDelay inp) = random (in_rawDelay inp) 800 3000"
  using random_delay_bounds [of "in_rawDelay inp"]
  by (simp add: randomDelay_def sint_sbintrunc' signed_take_bit_int_eq_self)

lemma gameOver_last:
  "last (trace (gameOver s)) = (if highScore s <s totalGameScore s then Tone 1046 600 else Tone 300 600)"
  by (simp add: gameOver_def Let_def prim_defs)

lemma loop_highScore_changes:
  assumes "loop inp s = Some s'" "highScore s' \<noteq> highScore s"
  shows "gameState s = 3 \<and> \<not> currentRound s <s totalRounds s \<and> highScore s <s totalGameScore s
         \<and> highScore s' = totalGameScore s"
proof -
  have "gameState s = 1 \<Longrightarrow> highScore s' = highScore s"
    using assms runEnGarde_fields [of inp s s'] by (simp add: loop_def)
  with assms show ?thesis
    by (auto simp: loop_def split: if_splits)
qed

lemma roundsRight_adds_one:
  "1 \<le>s totalRounds s \<Longrightarrow> totalRounds s <s 99 \<Longrightarrow> 900 <s in_joyX inp
     \<Longrightarrow> sint (totalRounds (roundsRight inp s)) = sint (totalRounds s) + 1"
  by (simp add: word_sle_eq word_sless_alt sint_inc)

lemma roundsLeft_takes_one:
  "1 <s totalRounds s \<Longrightarrow> totalRounds s \<le>s 99 \<Longrightarrow> in_joyX inp <s 100
     \<Longrightarrow> sint (totalRounds (roundsLeft inp s)) = sint (totalRounds s) - 1"
  by (simp add: word_sle_eq word_sless_alt sint_dec)

lemma logged_Nil [simp]: "logged [] s = s"
  by (simp add: logged_def)

lemma logged_logged [simp]: "logged evs' (logged evs s) = logged (evs @ evs') s"
  by (simp add: logged_def)

lemma logged_fields [simp]:
  "totalRounds (logged evs s) = totalRounds s"
  "gameState (logged evs s) = gameState s"
  "currentRound (logged evs s) = currentRound s"
  "totalGameScore (logged evs s) = totalGameScore s"
  "highScore (logged evs s) = highScore s"
  "menuOption (logged evs s) = menuOption s"
  "lastNavTime (logged evs s) = lastNavTime s"
  "leds (logged evs s) = leds s"
  "trace (logged evs s) = trace s @ evs"
  by (simp_all add: logged_def)

lemma sample_logged: "sample src s = logged [Input src] s"
  by (simp add: sample_def emit_def logged_def)

lemma delay_logged: "delay ms s = logged [Delay ms] s"
  by (simp add: delay_def emit_def logged_def)

lemma buttonsFree_iff: "buttonsFree g = (\<not> targetPressed g)"
  by (auto simp: buttonsFree_def targetPressed_def targets_upt)

lemma releaseGate_shape:
  "releaseGate gs s = Some s' \<Longrightarrow>
     \<exists>evs. s' = logged evs s \<and> (\<forall>e\<in>set evs. isInput e \<or> e = Delay 10)"
proof (induction gs arbitrary: s)
  case Nil
  then show ?case by simp
next
  case (Cons g gs)
  define s1 where "s1 = logged [Input (Button 0), Input (Button 1), Input (Button 2), Delay 10] s"
  have s1: "delay 10 (fold (\<lambda>i. sample (Button i)) [0..<numTargets] s) = s1"
    by (simp add: s1_def targets_upt sample_logged delay_logged)
  show ?case
  proof (cases "buttonsFree g")
    case True
    with Cons.prems s1 have "s' = s1"
      by (simp add: Let_def)
    then show ?thesis
      unfolding s1_def by (intro exI conjI, assumption) simp
  next
    case False
    with Cons.prems s1 have "releaseGate gs s1 = Some s'"
      by (simp add: Let_def)
    from Cons.IH [OF this] obtain evs where
      "s' = logged evs s1" "\<forall>e\<in>set evs. isInput e \<or> e = Delay 10"
      by blast
    then show ?thesis
      unfolding s1_def by (intro exI [of _ "[Input (Button 0), Input (Button 1), Input (Button 2), Delay 10] @ evs"]) auto
  qed
qed

lemma releaseGate_opens:
  "gateOpens gs \<Longrightarrow> \<exists>s'. releaseGate gs s = Some s'"
proof (induction gs arbitrary: s)
  case Nil
  then show ?case by (simp add: gateOpens_def)
next
  case (Cons g gs)
  show ?case
  proof (cases "buttonsFree g")
    case True
    then show ?thesis by (simp add: Let_def)
  next
    case False
    with Cons.prems have "gateOpens gs"
      by (simp add: gateOpens_def buttonsFree_iff)
    from Cons.IH [OF this] False show ?thesis
      by (simp add: Let_def)
  qed
qed

lemma cheatScan_shape:
  "cheatScan btn is s = (b, s') \<Longrightarrow>
     b = (\<exists>i\<in>set is. btn i = LOW) \<and>
     (\<exists>evs. (\<forall>e\<in>set evs. isInput e) \<and>
        (if b then (\<exists>i\<in>set is. btn i = LOW \<and> evs \<noteq> [] \<and> last evs = Input (Button i))
                   \<and> s' = falseStart (logged evs s)
         else s' = logged evs s))"
proof (induction "is" arbitrary: s)
  case Nil
  then show ?case
    by (auto intro: exI [of _ "[]"])
next
  case (Cons i "is")
  show ?case
  proof (cases "btn i = LOW")
    case True
    with Cons.prems have "b" "s' = falseStart (logged [Input (Button i)] s)"
      by (simp_all add: Let_def sample_logged)
    with True show ?thesis
      by (auto intro!: exI [of _ "[Input (Button i)]"])
  next
    case False
    with Cons.prems have "cheatScan btn is (logged [Input (Button i)] s) = (b, s')"
      by (simp add: Let_def sample_logged)
    from Cons.IH [OF this] obtain evs where
      b: "b = (\<exists>i\<in>set is. btn i = LOW)" and
      evs: "\<forall>e\<in>set evs. isInput e" and
      sh: "if b then (\<exists>i\<in>set is. btn i = LOW \<and> evs \<noteq> [] \<and> last evs = Input (Button i))
                   \<and> s' = falseStart (logged ([Input (Button i)] @ evs) s)
         else s' = logged ([Input (Button i)] @ evs) s"
      by auto
    from b False have b': "b = (\<exists>j\<in>set (i # is). btn j = LOW)"
      by simp
    show ?thesis
    proof (intro conjI exI [of _ "[Input (Button i)] @ evs"])
      show "b = (\<exists>i\<in>set (i # is). btn i = LOW)"
        by (rule b')
      show "\<forall>e\<in>set ([Input (Button i)] @ evs). isInput e"
        using evs by simp
      show "if b
        then (\<exists>ia\<in>set (i # is). btn ia = LOW \<and> [Input (Button i)] @ evs \<noteq> []
                \<and> last ([Input (Button i)] @ evs) = Input (Button ia))
             \<and> s' = falseStart (logged ([Input (Button i)] @ evs) s)
        else s' = logged ([Input (Button i)] @ evs) s"
        using sh by (auto split: if_splits)
    qed
  qed
qed

lemma delayLoop_shape:
  "delayLoop ds rd ps s = Some (how, s') \<Longrightarrow>
     \<exists>evs. (\<forall>e\<in>set evs. isInput e) \<and> evs \<noteq> [] \<and>
       (case how of
          FalseStart \<Rightarrow> (\<exists>p\<in>set ps. \<exists>i\<in>set [0..<numTargets].
                           p_btn p i = LOW \<and> last evs = Input (Button i))
                        \<and> s' = falseStart (logged evs s)
        | Cancelled \<Rightarrow> last evs = Input JoySwitch \<and> s' = cancelGame (logged evs s)
        | Elapsed \<Rightarrow> last evs = Input Clock \<and> s' = logged evs s)"
proof (induction ps arbitrary: s)
  case Nil
  then show ?case by simp
next
  case (Cons p ps)
  show ?case
  proof (cases "p_millis p - ds < scast rd")
    case False
    with Cons.prems have "how = Elapsed" "s' = logged [Input Clock] s"
      by (auto simp: Let_def sample_logged)
    then show ?thesis
      by (auto intro!: exI [of _ "[Input Clock]"])
  next
    case True
    obtain b s1 where scan: "cheatScan (p_btn p) [0..<numTargets] (logged [Input Clock] s) = (b, s1)"
      by (cases "cheatScan (p_btn p) [0..<numTargets] (logged [Input Clock] s)")
    from cheatScan_shape [OF scan] obtain evs where
      evs: "\<forall>e\<in>set evs. isInput e" and
      sh0: "if b then (\<exists>i\<in>set [0..<numTargets]. p_btn p i = LOW \<and> evs \<noteq> []
                        \<and> last evs = Input (Button i))
                   \<and> s1 = falseStart (logged evs (logged [Input Clock] s))
           else s1 = logged evs (logged [Input Clock] s)"
      by blast
    from sh0 have
      sh: "if b then (\<exists>i\<in>set [0..<numTargets]. p_btn p i = LOW \<and> evs \<noteq> []
                        \<and> last evs = Input (Button i))
                   \<and> s1 = falseStart (logged ([Input Clock] @ evs) s)
           else s1 = logged ([Input Clock] @ evs) s"
      by (cases b) simp_all
    show ?thesis
    proof (cases b)
      case True
      with Cons.prems \<open>p_millis p - ds < scast rd\<close> scan
      have "how = FalseStart" "s' = s1"
        by (simp_all add: Let_def sample_logged)
      with True sh evs show ?thesis
        by (auto intro!: exI [of _ "[Input Clock] @ evs"])
    next
      case False
      note nb = this
      with sh have s1: "s1 = logged ([Input Clock] @ evs) s"
        by simp
      show ?thesis
      proof (cases "p_joy p = LOW")
        case True
        with Cons.prems \<open>p_millis p - ds < scast rd\<close> scan nb
        have "how = Cancelled" "s' = cancelGame (logged [Input JoySwitch] s1)"
          by (simp_all add: Let_def sample_logged)
        with s1 evs show ?thesis
          by (auto intro!: exI [of _ "[Input Clock] @ evs @ [Input JoySwitch]"])
      next
        case False
        with Cons.prems \<open>p_millis p - ds < scast rd\<close> scan nb
        have "delayLoop ds rd ps (logged [Input JoySwitch] s1) = Some (how, s')"
          by (simp add: Let_def sample_logged)
        from Cons.IH [OF this] obtain evs2 where
          e2: "\<forall>e\<in>set evs2. isInput e" "evs2 \<noteq> []" and
          sh2: "case how of
                  FalseStart \<Rightarrow> (\<exists>p\<in>set ps. \<exists>i\<in>set [0..<numTargets].
                           p_btn p i = LOW \<and> last evs2 = Input (Button i))
                        \<and> s' = falseStart (logged evs2 (logged [Input JoySwitch] s1))
                | Cancelled \<Rightarrow> last evs2 = Input JoySwitch
                        \<and> s' = cancelGame (logged evs2 (logged [Input JoySwitch] s1))
                | Elapsed \<Rightarrow> last evs2 = Input Clock
                        \<and> s' = logged evs2 (logged [Input JoySwitch] s1)"
          by blast
        show ?thesis
        proof (intro exI [of _ "[Input Clock] @ evs @ [Input JoySwitch] @ evs2"] conjI)
          show "\<forall>e\<in>set ([Input Clock] @ evs @ [Input JoySwitch] @ evs2). isInput e"
            using evs e2 by auto
          show "[Input Clock] @ evs @ [Input JoySwitch] @ evs2 \<noteq> []"
            by simp
          show "case how of
             FalseStart \<Rightarrow>
               (\<exists>p\<in>set (p # ps). \<exists>i\<in>set [0..<numTargets]. p_btn p i = LOW
                  \<and> last ([Input Clock] @ evs @ [Input JoySwitch] @ evs2) = Input (Button i))
               \<and> s' = falseStart (logged ([Input Clock] @ evs @ [Input JoySwitch] @ evs2) s)
           | Cancelled \<Rightarrow>
               last ([Input Clock] @ evs @ [Input JoySwitch] @ evs2) = Input JoySwitch
               \<and> s' = cancelGame (logged ([Input Clock] @ evs @ [Input JoySwitch] @ evs2) s)
           | Elapsed \<Rightarrow>
               last ([Input Clock] @ evs @ [Input JoySwitch] @ evs2) = Input Clock
               \<and> s' = logged ([Input Clock] @ evs @ [Input JoySwitch] @ evs2) s"
            using sh2 e2 s1 by (cases how) auto
        qed
      qed
    qed
  qed
qed

lemma targetPressed_scan:
  "targetPressed btn \<Longrightarrow> \<exists>s'. cheatScan btn [0..<numTargets] s = (True, s')"
  using cheatScan_shape [of btn "[0..<numTargets]" s]
  by (cases "cheatScan btn [0..<numTargets] s") (auto simp: targetPressed_def)

lemma not_targetPressed_scan:
  "\<not> targetPressed btn \<Longrightarrow> \<exists>s'. cheatScan btn [0..<numTargets] s = (False, s')"
  using cheatScan_shape [of btn "[0..<numTargets]" s]
  by (cases "cheatScan btn [0..<numTargets] s") (auto simp: targetPressed_def)

lemma delayLoop_quiet_prefix:
  assumes "\<forall>q\<in>set pre. p_millis q - ds < scast rd \<and> quiet q"
  shows "\<exists>s1. delayLoop ds rd (pre @ rest) s = delayLoop ds rd rest s1"
  using assms
proof (induction pre arbitrary: s)
  case Nil
  then show ?case by auto
next
  case (Cons q pre)
  then have w: "p_millis q - ds < scast rd" and nt: "\<not> targetPressed (p_btn q)"
    and j: "p_joy q \<noteq> LOW" and rest: "\<forall>q\<in>set pre. p_millis q - ds < scast rd \<and> quiet q"
    by (auto simp: quiet_def)
  from not_targetPressed_scan [OF nt] obtain s1 where
    "cheatScan (p_btn q) [0..<numTargets] (sample Clock s) = (False, s1)"
    by blast
  with w j have "delayLoop ds rd ((q # pre) @ rest) s
      = delayLoop ds rd (pre @ rest) (sample JoySwitch s1)"
    by (simp add: Let_def)
  with Cons.IH [OF rest, of "sample JoySwitch s1"] show ?case
    by auto
qed

lemma delayLoop_returns_falseStart:
  assumes "\<forall>q\<in>set pre. p_millis q - ds < scast rd \<and> quiet q"
    and "p_millis p - ds < scast rd" "targetPressed (p_btn p)"
  shows "\<exists>s'. delayLoop ds rd (pre @ p # post) s = Some (FalseStart, s')"
proof -
  from delayLoop_quiet_prefix [OF assms(1), of "p # post" s] obtain s1 where
    eq: "delayLoop ds rd (pre @ p # post) s = delayLoop ds rd (p # post) s1"
    by blast
  from targetPressed_scan [OF assms(3)] obtain s2 where
    "cheatScan (p_btn p) [0..<numTargets] (sample Clock s1) = (True, s2)"
    by blast
  with assms(2) eq show ?thesis
    by (simp add: Let_def)
qed

lemma delayLoop_returns_cancelled:
  assumes "\<forall>q\<in>set pre. p_millis q - ds < scast rd \<and> quiet q"
    and "p_millis p - ds < scast rd" "\<not> targetPressed (p_btn p)" "p_joy p = LOW"
  shows "\<exists>s'. delayLoop ds rd (pre @ p # post) s = Some (Cancelled, s')"
proof -
  from delayLoop_quiet_prefix [OF assms(1), of "p # post" s] obtain s1 where
    eq: "delayLoop ds rd (pre @ p # post) s = delayLoop ds rd (p # post) s1"
    by blast
  from not_targetPressed_scan [OF assms(3)] obtain s2 where
    "cheatScan (p_btn p) [0..<numTargets] (sample Clock s1) = (False, s2)"
    by blast
  with assms(2,4) eq show ?thesis
    by (simp add: Let_def)
qed

lemma delayLoop_returns_elapsed:
  assumes "\<forall>q\<in>set pre. p_millis q - ds < scast rd \<and> quiet q"
    and "\<not> p_millis p - ds < scast rd"
  shows "\<exists>s'. delayLoop ds rd (pre @ p # post) s = Some (Elapsed, s')"
proof -
  from delayLoop_quiet_prefix [OF assms(1), of "p # post" s] obtain s1 where
    eq: "delayLoop ds rd (pre @ p # post) s = delayLoop ds rd (p # post) s1"
    by blast
  with assms(2) show ?thesis
    by (simp add: Let_def)
qed

lemma runEnGarde_exit_shape:
  assumes "runEnGarde_exit inp s = Some (how, s')"
  shows "\<exists>evs. (\<forall>e\<in>set evs. isInput e \<or> e = Delay 10 \<or> e = Delay 200) \<and> evs \<noteq> [] \<and>
       (case how of
          FalseStart \<Rightarrow> (\<exists>p\<in>set (in_polls inp). \<exists>i\<in>set [0..<numTargets].
                           p_btn p i = LOW \<and> last evs = Input (Button i))
                        \<and> s' = falseStart (logged evs (enGardeScreen s))
        | Cancelled \<Rightarrow> last evs = Input JoySwitch \<and> s' = cancelGame (logged evs (enGardeScreen s))
        | Elapsed \<Rightarrow> last evs = Input Clock
                        \<and> s' = lightTheTarget inp (logged evs (enGardeScreen s)))"
proof (cases "releaseGate (in_gate inp) (enGardeScreen s)")
  case None
  with assms show ?thesis
    by (simp add: runEnGarde_exit_def)
next
  case (Some s1)
  from releaseGate_shape [OF Some] obtain ev1 where
    s1: "s1 = logged ev1 (enGardeScreen s)" and ev1: "\<forall>e\<in>set ev1. isInput e \<or> e = Delay 10"
    by blast
  define s2 where "s2 = logged (ev1 @ [Delay 200, Input Rng, Input Clock]) (enGardeScreen s)"
  have s2: "sample Clock (sample Rng (delay 200 s1)) = s2"
    by (simp add: s1 s2_def sample_logged delay_logged)
  show ?thesis
  proof (cases "delayLoop (in_millis inp 0) (randomDelay inp) (in_polls inp) s2")
    case None
    with assms Some s2 show ?thesis
      by (simp add: runEnGarde_exit_def Let_def)
  next
    case (Some r)
    obtain h2 s3 where r: "r = (h2, s3)"
      by (cases r)
    from assms \<open>releaseGate (in_gate inp) (enGardeScreen s) = Some s1\<close> Some r s2
    have res: "how = h2" "s' = (if h2 = Elapsed then lightTheTarget inp s3 else s3)"
      by (cases h2; simp add: runEnGarde_exit_def Let_def)+
    from delayLoop_shape [OF Some [unfolded r]] obtain ev2 where
      ev2: "\<forall>e\<in>set ev2. isInput e" "ev2 \<noteq> []" and
      sh: "case h2 of
          FalseStart \<Rightarrow> (\<exists>p\<in>set (in_polls inp). \<exists>i\<in>set [0..<numTargets].
                           p_btn p i = LOW \<and> last ev2 = Input (Button i))
                        \<and> s3 = falseStart (logged ev2 s2)
        | Cancelled \<Rightarrow> last ev2 = Input JoySwitch \<and> s3 = cancelGame (logged ev2 s2)
        | Elapsed \<Rightarrow> last ev2 = Input Clock \<and> s3 = logged ev2 s2"
      by blast
    show ?thesis
    proof (intro exI [of _ "ev1 @ [Delay 200, Input Rng, Input Clock] @ ev2"] conjI)
      show "\<forall>e\<in>set (ev1 @ [Delay 200, Input Rng, Input Clock] @ ev2).
              isInput e \<or> e = Delay 10 \<or> e = Delay 200"
        using ev1 ev2 by auto
      show "ev1 @ [Delay 200, Input Rng, Input Clock] @ ev2 \<noteq> []"
        by simp
      show "case how of
          FalseStart \<Rightarrow> (\<exists>p\<in>set (in_polls inp). \<exists>i\<in>set [0..<numTargets].
               p_btn p i = LOW \<and> last (ev1 @ [Delay 200, Input Rng, Input Clock] @ ev2) = Input (Button i))
             \<and> s' = falseStart (logged (ev1 @ [Delay 200, Input Rng, Input Clock] @ ev2) (enGardeScreen s))
        | Cancelled \<Rightarrow> last (ev1 @ [Delay 200, Input Rng, Input Clock] @ ev2) = Input JoySwitch
             \<and> s' = cancelGame (logged (ev1 @ [Delay 200, Input Rng, Input Clock] @ ev2) (enGardeScreen s))
        | Elapsed \<Rightarrow> last (ev1 @ [Delay 200, Input Rng, Input Clock] @ ev2) = Input Clock
             \<and> s' = lightTheTarget inp (logged (ev1 @ [Delay 200, Input Rng, Input Clock] @ ev2) (enGardeScreen s))"
        using sh ev2 res by (cases h2) (auto simp: s2_def)
    qed
  qed
qed

lemma runEnGarde_exit_returns:
  assumes "gateOpens (in_gate inp)" "in_polls inp = pre @ p # post"
    and "\<forall>q\<in>set pre. inWindow inp q \<and> quiet q"
  shows "inWindow inp p \<Longrightarrow> targetPressed (p_btn p)
           \<Longrightarrow> \<exists>s'. runEnGarde_exit inp s = Some (FalseStart, s')"
    and "inWindow inp p \<Longrightarrow> \<not> targetPressed (p_btn p) \<Longrightarrow> p_joy p = LOW
           \<Longrightarrow> \<exists>s'. runEnGarde_exit inp s = Some (Cancelled, s')"
    and "\<not> inWindow inp p \<Longrightarrow> \<exists>s'. runEnGarde_exit inp s = Some (Elapsed, s')"
proof -
  from releaseGate_opens [OF assms(1)] obtain s1 where
    gate: "releaseGate (in_gate inp) (enGardeScreen s) = Some s1"
    by blast
  define s2 where "s2 = sample Clock (sample Rng (delay 200 s1))"
  have q: "\<forall>q\<in>set pre. p_millis q - in_millis inp 0 < scast (randomDelay inp) \<and> quiet q"
    using assms(3) by (simp add: inWindow_def)
  have unf: "runEnGarde_exit inp s =
      (case delayLoop (in_millis inp 0) (randomDelay inp) (pre @ p # post) s2 of
         None \<Rightarrow> None
       | Some (Elapsed, s) \<Rightarrow> Some (Elapsed, lightTheTarget inp s)
       | Some (how, s) \<Rightarrow> Some (how, s))"
    by (simp add: runEnGarde_exit_def gate Let_def s2_def assms(2))
  show "\<exists>s'. runEnGarde_exit inp s = Some (FalseStart, s')"
    if "inWindow inp p" "targetPressed (p_btn p)"
  proof -
    from that delayLoop_returns_falseStart [OF q, of p post s2] obtain s3 where
      "delayLoop (in_millis inp 0) (randomDelay inp) (pre @ p # post) s2 = Some (FalseStart, s3)"
      by (auto simp: inWindow_def)
    then show ?thesis
      by (simp add: unf)
  qed
  show "\<exists>s'. runEnGarde_exit inp s = Some (Cancelled, s')"
    if "inWindow inp p" "\<not> targetPressed (p_btn p)" "p_joy p = LOW"
  proof -
    from that delayLoop_returns_cancelled [OF q, of p post s2] obtain s3 where
      "delayLoop (in_millis inp 0) (randomDelay inp) (pre @ p # post) s2 = Some (Cancelled, s3)"
      by (auto simp: inWindow_def)
    then show ?thesis
      by (simp add: unf)
  qed
  show "\<exists>s'. runEnGarde_exit inp s = Some (Elapsed, s')"
    if "\<not> inWindow inp p"
  proof -
    from that delayLoop_returns_elapsed [OF q, of p post s2] obtain s3 where
      "delayLoop (in_millis inp 0) (randomDelay inp) (pre @ p # post) s2 = Some (Elapsed, s3)"
      by (auto simp: inWindow_def)
    then show ?thesis
      by (simp add: unf)
  qed
qed

lemma enGardeScreen_trace:
  "trace (enGardeScreen s) = trace s @
     [LcdClear, LcdPrint ''Rnd '', LcdPrintNum (sint (currentRound s)), LcdPrint ''/'',
      LcdPrintNum (sint (totalRounds s)), LcdSetCursor 9 0, LcdPrint ''Pts:'',
      LcdPrintNum (sint (totalGameScore s)), LcdSetCursor 0 1, LcdPrint ''EN GARDE...'',
      LedWrite 0 LOW, LedWrite 1 LOW, LedWrite 2 LOW]"
  by (simp add: enGardeScreen_def targets_upt prim_defs)

lemma falseStart_trace:
  "trace (falseStart s) = trace s @
     [Tone 100 400, LcdSetCursor 0 1, LcdPrint ''  FALTA! -500   '', Delay 1500]"
  by (simp add: falseStart_def prim_defs)


lemma sint_minus_500:
  "- (2 ^ 31) + 500 \<le> sint (a :: 32 word) \<Longrightarrow> sint (a - 500) = sint a - 500"
  using sint_lt [of a]
  by (simp add: sint_word_ariths signed_take_bit_int_eq_self)

lemma newEvents_logged [simp]: "trace s' = trace s @ evs \<Longrightarrow> newEvents s s' = evs"
  by (simp add: newEvents_def)

lemma earlyPress_hyps:
  "gateOpens (in_gate earlyPress)"
  "in_polls earlyPress = [stillPoll 10] @ centreAndSwitch # []"
  "\<forall>q\<in>set [stillPoll 10]. inWindow earlyPress q \<and> quiet q"
  "inWindow earlyPress centreAndSwitch"
  "targetPressed (p_btn centreAndSwitch)"
  "p_joy centreAndSwitch = LOW"
  by (simp_all add: earlyPress_def idle_def stillPoll_def centreAndSwitch_def released_def
      gateOpens_def targetPressed_def quiet_def inWindow_def randomDelay_def random_def
      targets_upt word_less_alt)



lemma waitOut_hyps:
  "gateOpens (in_gate waitOut)"
  "in_polls waitOut = [] @ \<lparr>p_millis = 5000, p_btn = released, p_joy = HIGH\<rparr> # []"
  "\<forall>q\<in>set []. inWindow waitOut q \<and> quiet q"
  "\<not> inWindow waitOut \<lparr>p_millis = 5000, p_btn = released, p_joy = HIGH\<rparr>"
  by (simp_all add: waitOut_def idle_def released_def
      gateOpens_def targetPressed_def quiet_def inWindow_def randomDelay_def random_def
      targets_upt word_less_alt)

lemma menuUp_nav [simp]:
  "menuOption (menuUp inp s) =
     (if in_joyY inp <s 100 \<and> 0 <s menuOption s then menuOption s - 1 else menuOption s)"
  "lastNavTime (menuUp inp s) =
     (if in_joyY inp <s 100 \<and> 0 <s menuOption s then in_millis inp 1 else lastNavTime s)"
  by (simp_all add: menuUp_def)

lemma menuDown_nav [simp]:
  "menuOption (menuDown inp s) =
     (if 900 <s in_joyY inp \<and> menuOption s <s 2 then menuOption s + 1 else menuOption s)"
  "lastNavTime (menuDown inp s) =
     (if 900 <s in_joyY inp \<and> menuOption s <s 2 then in_millis inp 2 else lastNavTime s)"
  by (simp_all add: menuDown_def)

lemma roundsRight_nav [simp]:
  "lastNavTime (roundsRight inp s) =
     (if 900 <s in_joyX inp then in_millis inp 3 else lastNavTime s)"
  by (simp add: roundsRight_def)

lemma roundsLeft_nav [simp]:
  "lastNavTime (roundsLeft inp s) =
     (if in_joyX inp <s 100 then in_millis inp 4 else lastNavTime s)"
  by (simp add: roundsLeft_def)

lemma menuSelect_nav [simp]:
  "menuOption (menuSelect inp s) = menuOption s"
  "lastNavTime (menuSelect inp s) = lastNavTime s"
  "gameState (menuSelect inp s) =
     (if in_joySw inp = LOW then if menuOption s = 0 \<or> menuOption s = 1 then 1 else 5
      else gameState s)"
  "currentRound (menuSelect inp s) =
     (if in_joySw inp = LOW \<and> (menuOption s = 0 \<or> menuOption s = 1) then 1
      else currentRound s)"
  by (simp_all add: menuSelect_def Let_def)

lemma sint_inc_le:
  assumes "sint (a :: 16 word) < sint (b :: 16 word)"
  shows "sint (a + 1) \<le> sint b"
proof -
  have "sint b < 32768"
    using sint_lt [of b] by simp
  with assms have "sint a < 32767"
    by linarith
  then have "sint (a + 1) = sint a + 1"
    by (rule sint_inc)
  with assms show ?thesis
    by linarith
qed

lemma loop_round_inv:
  assumes "loop inp s = Some s'"
    and "1 \<le>s totalRounds s" "totalRounds s \<le>s 99"
    and "inGame s \<longrightarrow> currentRound s \<le>s totalRounds s"
  shows "inGame s' \<longrightarrow> currentRound s' \<le>s totalRounds s'"
proof -
  consider "gameState s = 0" | "gameState s = 1" | "gameState s = 2" | "gameState s = 3"
    | "gameState s = 4 \<or> gameState s = 5"
    | "gameState s \<noteq> 0" "gameState s \<noteq> 1" "gameState s \<noteq> 2" "gameState s \<noteq> 3"
      "gameState s \<noteq> 4" "gameState s \<noteq> 5"
    by blast
  then show ?thesis
  proof cases
    case 1
    with assms(1) have s': "s' = handleMenu inp s"
      by (simp add: loop_def)
    from handleMenu_rounds_range [OF assms(2,3), of inp] have "1 \<le>s totalRounds s'"
      by (simp add: s')
    with handleMenu_state [of inp s] 1 show ?thesis
      by (auto simp: s' inGame_def)
  next
    case 2
    with assms(1) have "runEnGarde inp s = Some s'"
      by (simp add: loop_def)
    from runEnGarde_fields [OF this] 2 assms(4) show ?thesis
      by (auto simp: inGame_def)
  next
    case 3
    with assms(1) have s': "s' = checkReflexes inp s"
      by (simp add: loop_def)
    with checkReflexes_state [of inp s] 3 assms(4) show ?thesis
      by (auto simp: inGame_def)
  next
    case 4
    with assms(1) have s': "s' = stateResult s"
      by (simp add: loop_def)
    with 4 assms(4) show ?thesis
      by (auto simp: inGame_def word_sle_eq word_sless_alt sint_inc_le)
  next
    case 5
    with assms(1) have s': "s' = stateGameOver inp s"
      by (auto simp: loop_def)
    with 5 assms(4) show ?thesis
      by (auto simp: inGame_def)
  next
    case 6
    with assms(1) have "s' = s"
      by (simp add: loop_def)
    with 6 show ?thesis
      by (simp add: inGame_def)
  qed
qed

lemma run_round_inv:
  "run inps s = Some s' \<Longrightarrow> 1 \<le>s totalRounds s \<Longrightarrow> totalRounds s \<le>s 99
     \<Longrightarrow> (inGame s \<longrightarrow> currentRound s \<le>s totalRounds s)
     \<Longrightarrow> (inGame s' \<longrightarrow> currentRound s' \<le>s totalRounds s')"
proof (induction inps arbitrary: s)
  case Nil
  then show ?case by simp
next
  case (Cons inp inps)
  then obtain s1 where step: "loop inp s = Some s1" and rest: "run inps s1 = Some s'"
    by (auto split: option.splits)
  from loop_totalRounds [OF step Cons.prems(2,3)]
    loop_round_inv [OF step Cons.prems(2,3,4)] Cons.IH [OF rest]
  show ?case
    by simp
qed

lemma setup_sketch_view:
  "gameState (setup_sketch boot) = 0 \<and> menuOption (setup_sketch boot) = 0
   \<and> lastNavTime (setup_sketch boot) = 0 \<and> currentRound (setup_sketch boot) = 1
   \<and> totalRounds (setup_sketch boot) = 10"
  by (simp add: setup_sketch_def boot_def introAnimation_def drawMenu_def upt2 upt3 Let_def prim_defs)

lemma tick_pressSelect:
  assumes "gameState s = 0" "menuOption s = 0" "lastNavTime s = 0"
  shows "\<exists>s'. loop pressSelect s = Some s' \<and> gameState s' = 1 \<and> menuOption s' = 0
     \<and> lastNavTime s' = 0 \<and> currentRound s' = 1 \<and> totalRounds s' = totalRounds s"
  using assms
  by (simp add: loop_def pressSelect_def idle_def handleMenu_def menuSelect_def Let_def)

lemma tick_waitOut:
  assumes "gameState s = 1"
  shows "\<exists>s'. loop waitOut s = Some s' \<and> gameState s' = 2 \<and> menuOption s' = menuOption s
     \<and> lastNavTime s' = lastNavTime s \<and> currentRound s' = currentRound s
     \<and> totalRounds s' = totalRounds s"
proof -
  from runEnGarde_exit_returns(3) [OF waitOut_hyps, of s] obtain s' where
    ex: "runEnGarde_exit waitOut s = Some (Elapsed, s')"
    by blast
  from runEnGarde_exit_fields [OF ex] ex assms show ?thesis
    by (simp add: loop_def runEnGarde_def)
qed

lemma tick_hitLeft:
  assumes "gameState s = 2"
  shows "\<exists>s'. loop hitLeft s = Some s' \<and> gameState s' = 3 \<and> menuOption s' = menuOption s
     \<and> lastNavTime s' = lastNavTime s \<and> currentRound s' = currentRound s
     \<and> totalRounds s' = totalRounds s"
  using assms
  by (simp add: loop_def hitLeft_def idle_def checkReflexes_def targets_upt Let_def)

lemma tick_result:
  assumes "gameState s = 3" "currentRound s = 1" "totalRounds s = 10"
  shows "\<exists>s'. loop idle s = Some s' \<and> gameState s' = 1 \<and> menuOption s' = menuOption s
     \<and> lastNavTime s' = lastNavTime s \<and> currentRound s' = 2 \<and> totalRounds s' = 10"
  using assms
  by (simp add: loop_def word_sless_alt)

lemma cancelRound_hyps:
  "gateOpens (in_gate cancelRound)"
  "in_polls cancelRound = [] @ \<lparr>p_millis = 10, p_btn = released, p_joy = LOW\<rparr> # []"
  "\<forall>q\<in>set []. inWindow cancelRound q \<and> quiet q"
  "inWindow cancelRound \<lparr>p_millis = 10, p_btn = released, p_joy = LOW\<rparr>"
  "\<not> targetPressed (p_btn \<lparr>p_millis = 10, p_btn = released, p_joy = LOW\<rparr>)"
  "p_joy \<lparr>p_millis = 10, p_btn = released, p_joy = LOW\<rparr> = LOW"
  by (simp_all add: cancelRound_def idle_def released_def
      gateOpens_def targetPressed_def quiet_def inWindow_def randomDelay_def random_def
      targets_upt word_less_alt)

lemma tick_cancelRound:
  assumes "gameState s = 1"
  shows "\<exists>s'. loop cancelRound s = Some s' \<and> gameState s' = 0 \<and> menuOption s' = menuOption s
     \<and> lastNavTime s' = lastNavTime s \<and> currentRound s' = currentRound s
     \<and> totalRounds s' = totalRounds s"
proof -
  from runEnGarde_exit_returns(2) [OF cancelRound_hyps, of s] obtain s' where
    ex: "runEnGarde_exit cancelRound s = Some (Cancelled, s')"
    by blast
  from runEnGarde_exit_fields [OF ex] ex assms show ?thesis
    by (simp add: loop_def runEnGarde_def)
qed

lemma menu_down_left:
  assumes "gameState s = 0" "menuOption s = 0" "lastNavTime s = 0"
  shows "loop (stickDownLeft 1000) s = Some (handleMenu (stickDownLeft 1000) s)"
    and "gameState (handleMenu (stickDownLeft 1000) s) = 0"
    and "menuOption (handleMenu (stickDownLeft 1000) s) = 1"
    and "lastNavTime (handleMenu (stickDownLeft 1000) s) = 1000"
    and "currentRound (handleMenu (stickDownLeft 1000) s) = currentRound s"
    and "totalRounds (handleMenu (stickDownLeft 1000) s) =
           (if totalRounds s - 1 <s 1 then 1 else totalRounds s - 1)"
  using assms
  by (simp_all add: loop_def handleMenu_def stickDownLeft_def idle_def Let_def
      word_sless_alt word_less_alt)

lemma menu_left:
  assumes "gameState s = 0" "menuOption s = 1" "200 < now - lastNavTime s"
  shows "loop (stickLeft now) s = Some (handleMenu (stickLeft now) s)"
    and "gameState (handleMenu (stickLeft now) s) = 0"
    and "menuOption (handleMenu (stickLeft now) s) = 1"
    and "lastNavTime (handleMenu (stickLeft now) s) = now"
    and "currentRound (handleMenu (stickLeft now) s) = currentRound s"
    and "totalRounds (handleMenu (stickLeft now) s) =
           (if totalRounds s - 1 <s 1 then 1 else totalRounds s - 1)"
  using assms
  by (simp_all add: loop_def handleMenu_def stickLeft_def idle_def Let_def word_sless_alt)

lemma run_Cons: "loop inp s = Some s' \<Longrightarrow> run (inp # inps) s = run inps s'"
  by simp

lemma stale_round_reached:
  "\<exists>s. run cancelledThenShortened (setup_sketch boot) = Some s
     \<and> gameState s = 0 \<and> currentRound s = 2 \<and> totalRounds s = 1"
proof -
  note v0 = setup_sketch_view
  from tick_pressSelect [of "setup_sketch boot"] v0 obtain s1 where
    l1: "loop pressSelect (setup_sketch boot) = Some s1" and
    v1: "gameState s1 = 1" "menuOption s1 = 0" "lastNavTime s1 = 0" "currentRound s1 = 1"
      "totalRounds s1 = 10"
    by auto
  from tick_waitOut [OF v1(1)] v1 obtain s2 where
    l2: "loop waitOut s1 = Some s2" and
    v2: "gameState s2 = 2" "menuOption s2 = 0" "lastNavTime s2 = 0" "currentRound s2 = 1"
      "totalRounds s2 = 10"
    by auto
  from tick_hitLeft [OF v2(1)] v2 obtain s3 where
    l3: "loop hitLeft s2 = Some s3" and
    v3: "gameState s3 = 3" "menuOption s3 = 0" "lastNavTime s3 = 0" "currentRound s3 = 1"
      "totalRounds s3 = 10"
    by auto
  from tick_result [OF v3(1) v3(4) v3(5)] v3 obtain s4 where
    l4: "loop idle s3 = Some s4" and
    v4: "gameState s4 = 1" "menuOption s4 = 0" "lastNavTime s4 = 0" "currentRound s4 = 2"
      "totalRounds s4 = 10"
    by auto
  from tick_cancelRound [OF v4(1)] v4 obtain s5 where
    l5: "loop cancelRound s4 = Some s5" and
    v5: "gameState s5 = 0" "menuOption s5 = 0" "lastNavTime s5 = 0" "currentRound s5 = 2"
      "totalRounds s5 = 10"
    by auto
  define s6 where "s6 = handleMenu (stickDownLeft 1000) s5"
  note m6 = menu_down_left [OF v5(1,2,3), folded s6_def]
  have v6: "gameState s6 = 0" "menuOption s6 = 1" "lastNavTime s6 = 1000" "currentRound s6 = 2"
    "totalRounds s6 = 9"
    using m6 v5 by (simp_all add: word_sless_alt)
  define s7 where "s7 = handleMenu (stickLeft 2000) s6"
  have g7: "200 < 2000 - lastNavTime s6" by (simp add: v6)
  note m7 = menu_left [OF v6(1,2) g7, folded s7_def]
  have v7: "gameState s7 = 0" "menuOption s7 = 1" "lastNavTime s7 = 2000" "currentRound s7 = 2"
    "totalRounds s7 = 8"
    using m7 v6 by (simp_all add: word_sless_alt)
  define s8 where "s8 = handleMenu (stickLeft 3000) s7"
  have g8: "200 < 3000 - lastNavTime s7" by (simp add: v7)
  note m8 = menu_left [OF v7(1,2) g8, folded s8_def]
  have v8: "gameState s8 = 0" "menuOption s8 = 1" "lastNavTime s8 = 3000" "currentRound s8 = 2"
    "totalRounds s8 = 7"
    using m8 v7 by (simp_all add: word_sless_alt)
  define s9 where "s9 = handleMenu (stickLeft 4000) s8"
  have g9: "200 < 4000 - lastNavTime s8" by (simp add: v8)
  note m9 = menu_left [OF v8(1,2) g9, folded s9_def]
  have v9: "gameState s9 = 0" "menuOption s9 = 1" "lastNavTime s9 = 4000" "currentRound s9 = 2"
    "totalRounds s9 = 6"
    using m9 v8 by (simp_all add: word_sless_alt)
  define s10 where "s10 = handleMenu (stickLeft 5000) s9"
  have g10: "200 < 5000 - lastNavTime s9" by (simp add: v9)
  note m10 = menu_left [OF v9(1,2) g10, folded s10_def]
  have v10: "gameState s10 = 0" "menuOption s10 = 1" "lastNavTime s10 = 5000" "currentRound s10 = 2"
    "totalRounds s10 = 5"
    using m10 v9 by (simp_all add: word_sless_alt)
  define s11 where "s11 = handleMenu (stickLeft 6000) s10"
  have g11: "200 < 6000 - lastNavTime s10" by (simp add: v10)
  note m11 = menu_left [OF v10(1,2) g11, folded s11_def]
  have v11: "gameState s11 = 0" "menuOption s11 = 1" "lastNavTime s11 = 6000" "currentRound s11 = 2"
    "totalRounds s11 = 4"
    using m11 v10 by (simp_all add: word_sless_alt)
  define s12 where "s12 = handleMenu (stickLeft 7000) s11"
  have g12: "200 < 7000 - lastNavTime s11" by (simp add: v11)
  note m12 = menu_left [OF v11(1,2) g12, folded s12_def]
  have v12: "gameState s12 = 0" "menuOption s12 = 1" "lastNavTime s12 = 7000" "currentRound s12 = 2"
    "totalRounds s12 = 3"
    using m12 v11 by (simp_all add: word_sless_alt)
  define s13 where "s13 = handleMenu (stickLeft 8000) s12"
  have g13: "200 < 8000 - lastNavTime s12" by (simp add: v12)
  note m13 = menu_left [OF v12(1,2) g13, folded s13_def]
  have v13: "gameState s13 = 0" "menuOption s13 = 1" "lastNavTime s13 = 8000" "currentRound s13 = 2"
    "totalRounds s13 = 2"
    using m13 v12 by (simp_all add: word_sless_alt)
  define s14 where "s14 = handleMenu (stickLeft 9000) s13"
  have g14: "200 < 9000 - lastNavTime s13" by (simp add: v13)
  note m14 = menu_left [OF v13(1,2) g14, folded s14_def]
  have v14: "gameState s14 = 0" "currentRound s14 = 2" "totalRounds s14 = 1"
    using m14 v13 by (simp_all add: word_sless_alt)
  have "run cancelledThenShortened (setup_sketch boot) = Some s14"
    unfolding cancelledThenShortened_def
    by (simp only: run_Cons [OF l1] run_Cons [OF l2] run_Cons [OF l3] run_Cons [OF l4]
        run_Cons [OF l5] run_Cons [OF m6(1)] run_Cons [OF m7(1)] run_Cons [OF m8(1)]
        run_Cons [OF m9(1)] run_Cons [OF m10(1)] run_Cons [OF m11(1)] run_Cons [OF m12(1)]
        run_Cons [OF m13(1)] run_Cons [OF m14(1)] run.simps(1))
  with v14 show ?thesis
    by blast
qed

lemma stateResult_changes:
  "filter isStateChange (newEvents s (stateResult s)) =
     [SetGameState (if currentRound s <s totalRounds s then 1 else 4)]"
  by (simp add: stateResult_def gameOver_def Let_def targets_upt prim_defs newEvents_def)

lemma stateGameOver_changes:
  "filter isStateChange (newEvents s (stateGameOver inp s)) =
     (if in_joySw inp = LOW \<or> in_btn inp 1 = LOW then [SetGameState 0] else [])"
  by (simp add: stateGameOver_def drawMenu_def upt2 Let_def prim_defs newEvents_def)









section \<open>The scoring of a round\<close>

text \<open>
  Claim C1. A correct hit scores \<open>1000 - reactionTime\<close> when the reaction took at most
  1000 ms and 0 when it took longer; the score is never negative, and a faster reaction
  never scores less than a slower one. In \<open>checkReflexes\<close>, a pass in which the only
  pressed button is the target one scores the time from \<open>startTime\<close> to the reading of
  the clock in this way.
\<close>

theorem hit_score:
  "(uint (reactionTime s) \<le> 1000 \<longrightarrow>
      sint (roundScore (processRoundResult True s)) = 1000 - uint (reactionTime s))
   \<and> (1000 < uint (reactionTime s) \<longrightarrow> sint (roundScore (processRoundResult True s)) = 0)
   \<and> 0 \<le> sint (roundScore (processRoundResult True s))
   \<and> (uint (reactionTime s) \<le> uint (reactionTime t) \<longrightarrow>
        sint (roundScore (processRoundResult True t)) \<le> sint (roundScore (processRoundResult True s)))
   \<and> (i < numTargets \<and> in_btn inp i = LOW \<and> of_nat i = currentTarget s
        \<and> (\<forall>j<numTargets. j \<noteq> i \<longrightarrow> in_btn inp j \<noteq> LOW) \<longrightarrow>
        roundScore (checkReflexes inp s) =
          roundScore (processRoundResult True (s\<lparr>reactionTime := in_millis inp i - startTime s\<rparr>)))"
proof -
  have "i < numTargets \<and> in_btn inp i = LOW \<and> of_nat i = currentTarget s
        \<and> (\<forall>j<numTargets. j \<noteq> i \<longrightarrow> in_btn inp j \<noteq> LOW) \<longrightarrow>
        roundScore (checkReflexes inp s) =
          roundScore (processRoundResult True (s\<lparr>reactionTime := in_millis inp i - startTime s\<rparr>))"
    using checkReflexes_single [of i inp s] by auto
  then show ?thesis
    by (simp only: hit_score_int) simp
qed

theorem hit_score_witness:
  "sint (roundScore (processRoundResult True (boot\<lparr>reactionTime := 150\<rparr>))) = 850
   \<and> sint (roundScore (processRoundResult True (boot\<lparr>reactionTime := 1001\<rparr>))) = 0
   \<and> sint (roundScore (processRoundResult True (boot\<lparr>reactionTime := 400\<rparr>)))
       \<le> sint (roundScore (processRoundResult True (boot\<lparr>reactionTime := 150\<rparr>)))
   \<and> roundScore (checkReflexes (idle\<lparr>in_btn := (\<lambda>i. if i = 1 then LOW else HIGH),
                                     in_millis := (\<lambda>k. 1150)\<rparr>)
                    (boot\<lparr>gameState := 2, currentTarget := 1, startTime := 1000\<rparr>)) = 850"
  using hit_score [where s = "boot\<lparr>reactionTime := 150\<rparr>" and t = "boot\<lparr>reactionTime := 400\<rparr>"
      and i = 5 and inp = idle]
    hit_score [where i = 1 and t = boot and inp =
      "idle\<lparr>in_btn := (\<lambda>i. if i = 1 then LOW else HIGH), in_millis := (\<lambda>k. 1150)\<rparr>"
      and s = "boot\<lparr>gameState := 2, currentTarget := 1, startTime := 1000\<rparr>"]
    hit_score [where s = "boot\<lparr>reactionTime := 1001\<rparr>" and t = boot and i = 5 and inp = idle]
  by (simp add: boot_def idle_def numTargets_def)

text \<open>
  Claim C6. A wrong button scores exactly \<open>-200\<close>, whatever the reaction time: in
  \<open>processRoundResult\<close> for every state, and in \<open>checkReflexes\<close> for every pass in which
  the only pressed button is not the target one.
\<close>

theorem miss_score_fixed:
  "roundScore (processRoundResult False s) = - 200
   \<and> sint (roundScore (processRoundResult False s)) = - 200
   \<and> (i < numTargets \<and> in_btn inp i = LOW \<and> of_nat i \<noteq> currentTarget s
        \<and> (\<forall>j<numTargets. j \<noteq> i \<longrightarrow> in_btn inp j \<noteq> LOW) \<longrightarrow>
        sint (roundScore (checkReflexes inp s)) = - 200)"
  using checkReflexes_single [of i inp s] by auto

theorem miss_score_fixed_witness:
  "sint (roundScore (checkReflexes (idle\<lparr>in_btn := (\<lambda>i. if i = 2 then LOW else HIGH),
                                          in_millis := (\<lambda>k. 1150)\<rparr>)
                    (boot\<lparr>gameState := 2, currentTarget := 1, startTime := 1000\<rparr>))) = - 200"
  using miss_score_fixed [where i = 2 and inp =
      "idle\<lparr>in_btn := (\<lambda>i. if i = 2 then LOW else HIGH), in_millis := (\<lambda>k. 1150)\<rparr>"
      and s = "boot\<lparr>gameState := 2, currentTarget := 1, startTime := 1000\<rparr>"]
  by (simp add: boot_def idle_def numTargets_def)

text \<open>
  Claim C2. With the target on the left, the left and the centre button both pressed in
  one pass and both clock readings 150 ms after \<open>startTime\<close>, \<open>checkReflexes\<close> processes
  both presses: the hit adds 850, the miss then subtracts 200, so the total is 650 and
  not the 850 of the first press alone, \<open>roundScore\<close> ends at \<open>-200\<close>, and \<open>gameState\<close> is
  assigned 3 twice.
\<close>

theorem double_press_processed_twice:
  "(let s' = checkReflexes (idle\<lparr>in_btn := (\<lambda>i. if i < 2 then LOW else HIGH),
                                  in_millis := (\<lambda>k. 150)\<rparr>)
                           (boot\<lparr>gameState := 2\<rparr>)
    in totalGameScore s' = 650 \<and> roundScore s' = - 200 \<and> gameState s' = 3
       \<and> length (filter (\<lambda>e. e = SetGameState 3) (trace s')) = 2
       \<and> totalGameScore (processRoundResult True (boot\<lparr>gameState := 2, reactionTime := 150\<rparr>)) = 850)"
  by (simp add: checkReflexes_def targets_upt processRoundResult_def prim_defs Let_def idle_def boot_def)

section \<open>The random wait of the preparation phase\<close>

text \<open>
  Claim C3, as the code has it. The wait drawn by \<open>random(800, 3000)\<close> lies between 800
  and 2999 ms: the upper bound of \<open>random\<close> is exclusive. Every whole number of
  milliseconds from 800 through 2999 is drawn for some value of the generator within its
  range.
\<close>

theorem randomDelay_half_open:
  "800 \<le> sint (randomDelay inp) \<and> sint (randomDelay inp) \<le> 2999
   \<and> (800 \<le> d \<and> d \<le> 2999 \<longrightarrow>
        (\<exists>raw. raw \<le> RANDOM_MAX \<and> sint (randomDelay (idle\<lparr>in_rawDelay := raw\<rparr>)) = d))"
proof -
  have "\<exists>raw. raw \<le> RANDOM_MAX \<and> sint (randomDelay (idle\<lparr>in_rawDelay := raw\<rparr>)) = d"
    if "800 \<le> d" "d \<le> 2999"
  proof (intro exI conjI)
    show "nat (d - 800) \<le> RANDOM_MAX"
      using that by (simp add: RANDOM_MAX_def)
    show "sint (randomDelay (idle\<lparr>in_rawDelay := nat (d - 800)\<rparr>)) = d"
      using that by (simp add: sint_randomDelay random_def)
  qed
  then show ?thesis
    using random_delay_bounds [of "in_rawDelay inp"] by (simp add: sint_randomDelay)
qed

theorem randomDelay_half_open_witness:
  "\<exists>raw. raw \<le> RANDOM_MAX \<and> sint (randomDelay (idle\<lparr>in_rawDelay := raw\<rparr>)) = 2999"
  using randomDelay_half_open [where d = 2999] by simp

text \<open>
  Claim C3, as stated, fails at its upper end: no value of the generator makes the wait
  3000 ms.
\<close>

theorem randomDelay_never_3000: "\<not> (\<exists>inp. sint (randomDelay inp) = 3000)"
proof
  assume "\<exists>inp. sint (randomDelay inp) = 3000"
  then obtain inp where "sint (randomDelay inp) = 3000" ..
  with random_delay_bounds [of "in_rawDelay inp"] show False
    by (simp add: sint_randomDelay)
qed

section \<open>The high score\<close>

text \<open>
  Claim C5. \<open>gameOver\<close> sets \<open>highScore\<close> to \<open>totalGameScore\<close> exactly when the total is
  greater, and then ends on the last note of the fanfare; otherwise it leaves \<open>highScore\<close>
  alone and ends on the closing tone. A pass of \<open>loop\<close> changes \<open>highScore\<close> only in this
  way, at the end of the last round, and over any sequence of passes \<open>highScore\<close> never
  decreases.
\<close>

theorem highScore_never_decreases:
  "highScore (gameOver s) =
     (if highScore s <s totalGameScore s then totalGameScore s else highScore s)
   \<and> last (trace (gameOver s)) =
       (if highScore s <s totalGameScore s then Tone 1046 600 else Tone 300 600)
   \<and> (loop inp s = Some s1 \<and> highScore s1 \<noteq> highScore s \<longrightarrow>
        gameState s = 3 \<and> \<not> currentRound s <s totalRounds s
        \<and> highScore s <s totalGameScore s \<and> highScore s1 = totalGameScore s)
   \<and> (run inps s = Some s' \<longrightarrow> highScore s \<le>s highScore s')"
proof (intro conjI impI)
  show "highScore (gameOver s) =
     (if highScore s <s totalGameScore s then totalGameScore s else highScore s)"
    by simp
  show "last (trace (gameOver s)) =
       (if highScore s <s totalGameScore s then Tone 1046 600 else Tone 300 600)"
    by (rule gameOver_last)
next
  assume step: "loop inp s = Some s1 \<and> highScore s1 \<noteq> highScore s"
  then have "gameState s = 3 \<and> \<not> currentRound s <s totalRounds s
      \<and> highScore s <s totalGameScore s \<and> highScore s1 = totalGameScore s"
    using loop_highScore_changes [of inp s s1] by blast
  then show "gameState s = 3" "\<not> currentRound s <s totalRounds s"
    "highScore s <s totalGameScore s" "highScore s1 = totalGameScore s"
    by blast+
next
  assume "run inps s = Some s'"
  then show "highScore s \<le>s highScore s'"
    by (rule run_highScore)
qed

theorem highScore_never_decreases_witness:
  "run [idle, idle\<lparr>in_joySw := LOW\<rparr>] (boot\<lparr>gameState := 3, currentRound := 10, totalGameScore := 850\<rparr>)
     \<noteq> None
   \<and> highScore (boot\<lparr>gameState := 3, currentRound := 10, totalGameScore := 850\<rparr>)
       \<le>s highScore (the (run [idle, idle\<lparr>in_joySw := LOW\<rparr>]
                           (boot\<lparr>gameState := 3, currentRound := 10, totalGameScore := 850\<rparr>)))
   \<and> highScore (the (run [idle, idle\<lparr>in_joySw := LOW\<rparr>]
                           (boot\<lparr>gameState := 3, currentRound := 10, totalGameScore := 850\<rparr>))) = 850"
  using highScore_never_decreases [where s = "boot\<lparr>gameState := 3, currentRound := 10, totalGameScore := 850\<rparr>"
      and inps = "[idle, idle\<lparr>in_joySw := LOW\<rparr>]" and inp = idle
      and ?s1.0 = "stateResult (boot\<lparr>gameState := 3, currentRound := 10, totalGameScore := 850\<rparr>)"
      and s' = "the (run [idle, idle\<lparr>in_joySw := LOW\<rparr>]
                           (boot\<lparr>gameState := 3, currentRound := 10, totalGameScore := 850\<rparr>))"]
  by (simp add: loop_def boot_def idle_def word_sless_alt)

section \<open>The number of rounds\<close>

text \<open>
  Claim C7. Starting from a value between 1 and 99, \<open>totalRounds\<close> stays between 1 and 99
  over every pass of \<open>handleMenu\<close> and over every sequence of passes of \<open>loop\<close>. An
  increment at 99 leaves it at 99 and a decrement at 1 leaves it at 1; below 99 the
  increment adds one and above 1 the decrement takes one.
\<close>

theorem totalRounds_clamped:
  "(1 \<le>s totalRounds s \<and> totalRounds s \<le>s 99 \<and> run inps s = Some s' \<longrightarrow>
      1 \<le>s totalRounds s' \<and> totalRounds s' \<le>s 99)
   \<and> (1 \<le>s totalRounds s \<and> totalRounds s \<le>s 99 \<longrightarrow>
        1 \<le>s totalRounds (handleMenu inp s) \<and> totalRounds (handleMenu inp s) \<le>s 99)
   \<and> (totalRounds s = 99 \<and> 900 <s in_joyX inp \<longrightarrow>
        totalRounds (roundsRight inp s) = 99 \<and> totalRounds (handleMenu inp s) = 99)
   \<and> (totalRounds s = 1 \<and> in_joyX inp <s 100 \<longrightarrow>
        totalRounds (roundsLeft inp s) = 1 \<and> totalRounds (handleMenu inp s) = 1)
   \<and> (1 \<le>s totalRounds s \<and> totalRounds s <s 99 \<and> 900 <s in_joyX inp \<longrightarrow>
        sint (totalRounds (roundsRight inp s)) = sint (totalRounds s) + 1)
   \<and> (1 <s totalRounds s \<and> totalRounds s \<le>s 99 \<and> in_joyX inp <s 100 \<longrightarrow>
        sint (totalRounds (roundsLeft inp s)) = sint (totalRounds s) - 1)"
proof -
  have a: "1 \<le>s totalRounds s \<and> totalRounds s \<le>s 99 \<and> run inps s = Some s' \<longrightarrow>
      1 \<le>s totalRounds s' \<and> totalRounds s' \<le>s 99"
    using run_totalRounds [of inps s s'] by simp
  have b: "1 \<le>s totalRounds s \<and> totalRounds s \<le>s 99 \<longrightarrow>
        1 \<le>s totalRounds (handleMenu inp s) \<and> totalRounds (handleMenu inp s) \<le>s 99"
    using handleMenu_rounds_range [of s inp] by simp
  have c: "totalRounds s = 99 \<and> 900 <s in_joyX inp \<longrightarrow>
        totalRounds (roundsRight inp s) = 99 \<and> totalRounds (handleMenu inp s) = 99"
    using handleMenu_totalRounds [of inp s] joyX_exclusive [of "in_joyX inp"]
    by (auto simp: clamp_at_99)
  have d: "totalRounds s = 1 \<and> in_joyX inp <s 100 \<longrightarrow>
        totalRounds (roundsLeft inp s) = 1 \<and> totalRounds (handleMenu inp s) = 1"
    using handleMenu_totalRounds [of inp s] joyX_exclusive [of "in_joyX inp"]
    by (auto simp: word_sless_alt)
  from a b c d roundsRight_adds_one [of s inp] roundsLeft_takes_one [of s inp]
  show ?thesis
    by blast
qed

theorem totalRounds_clamped_witness:
  "totalRounds (handleMenu (idle\<lparr>in_joyX := 1000, in_millis := (\<lambda>k. 1000)\<rparr>)
                  (boot\<lparr>menuOption := 1, totalRounds := 99\<rparr>)) = 99
   \<and> totalRounds (handleMenu (idle\<lparr>in_joyX := 0, in_millis := (\<lambda>k. 1000)\<rparr>)
                  (boot\<lparr>menuOption := 1, totalRounds := 1\<rparr>)) = 1
   \<and> sint (totalRounds (roundsRight (idle\<lparr>in_joyX := 1000\<rparr>) boot)) = 11
   \<and> sint (totalRounds (roundsLeft (idle\<lparr>in_joyX := 0\<rparr>) boot)) = 9
   \<and> run [idle\<lparr>in_joyX := 1000, in_millis := (\<lambda>k. 1000)\<rparr>]
         (boot\<lparr>menuOption := 1, totalRounds := 98\<rparr>)
       = Some (handleMenu (idle\<lparr>in_joyX := 1000, in_millis := (\<lambda>k. 1000)\<rparr>)
                 (boot\<lparr>menuOption := 1, totalRounds := 98\<rparr>))
   \<and> totalRounds (handleMenu (idle\<lparr>in_joyX := 1000, in_millis := (\<lambda>k. 1000)\<rparr>)
                 (boot\<lparr>menuOption := 1, totalRounds := 98\<rparr>)) \<le>s 99"
proof -
  have r: "run [idle\<lparr>in_joyX := 1000, in_millis := (\<lambda>k. 1000)\<rparr>]
         (boot\<lparr>menuOption := 1, totalRounds := 98\<rparr>)
       = Some (handleMenu (idle\<lparr>in_joyX := 1000, in_millis := (\<lambda>k. 1000)\<rparr>)
                 (boot\<lparr>menuOption := 1, totalRounds := 98\<rparr>))"
    by (simp add: loop_def boot_def)
  have "totalRounds (handleMenu (idle\<lparr>in_joyX := 1000, in_millis := (\<lambda>k. 1000)\<rparr>)
                  (boot\<lparr>menuOption := 1, totalRounds := 99\<rparr>)) = 99"
    using totalRounds_clamped [where s = "boot\<lparr>menuOption := 1, totalRounds := 99\<rparr>"
      and inp = "idle\<lparr>in_joyX := 1000, in_millis := (\<lambda>k. 1000)\<rparr>"]
    by (simp add: boot_def idle_def word_sless_alt)
  moreover have "totalRounds (handleMenu (idle\<lparr>in_joyX := 0, in_millis := (\<lambda>k. 1000)\<rparr>)
                  (boot\<lparr>menuOption := 1, totalRounds := 1\<rparr>)) = 1"
    using totalRounds_clamped [where s = "boot\<lparr>menuOption := 1, totalRounds := 1\<rparr>"
      and inp = "idle\<lparr>in_joyX := 0, in_millis := (\<lambda>k. 1000)\<rparr>"]
    by (simp add: boot_def idle_def word_sless_alt)
  moreover have "sint (totalRounds (roundsRight (idle\<lparr>in_joyX := 1000\<rparr>) boot)) = 11"
    using totalRounds_clamped [where s = boot and inp = "idle\<lparr>in_joyX := 1000\<rparr>"]
    by (simp add: boot_def idle_def word_sless_alt word_sle_eq)
  moreover have "sint (totalRounds (roundsLeft (idle\<lparr>in_joyX := 0\<rparr>) boot)) = 9"
    using totalRounds_clamped [where s = boot and inp = "idle\<lparr>in_joyX := 0\<rparr>"]
    by (simp add: boot_def idle_def word_sless_alt word_sle_eq)
  moreover have "totalRounds (handleMenu (idle\<lparr>in_joyX := 1000, in_millis := (\<lambda>k. 1000)\<rparr>)
                 (boot\<lparr>menuOption := 1, totalRounds := 98\<rparr>)) \<le>s 99"
    using totalRounds_clamped [where s = "boot\<lparr>menuOption := 1, totalRounds := 98\<rparr>"
      and inps = "[idle\<lparr>in_joyX := 1000, in_millis := (\<lambda>k. 1000)\<rparr>]"
      and s' = "handleMenu (idle\<lparr>in_joyX := 1000, in_millis := (\<lambda>k. 1000)\<rparr>)
                 (boot\<lparr>menuOption := 1, totalRounds := 98\<rparr>)"] r
    by (simp add: boot_def word_sle_eq)
  ultimately show ?thesis
    using r by simp
qed

section \<open>The preparation phase\<close>

text \<open>
  Claim C4. Whenever the release gate opens and, after any number of still polls inside
  the delay window, a poll inside the window finds a target button pressed,
  \<open>runEnGarde\<close> returns through its false-start branch: exactly 500 is subtracted from
  \<open>totalGameScore\<close> (in 32-bit arithmetic; as a number, whenever the result is not below
  the least \<open>long\<close>), \<open>currentRound\<close> and \<open>gameState\<close> are unchanged, so that from the
  preparation state the machine stays in it and the next pass of \<open>loop\<close> runs
  \<open>runEnGarde\<close> again for the same round.
\<close>

theorem false_start_penalty:
  assumes "gateOpens (in_gate inp)" and "in_polls inp = pre @ p # post"
    and "\<forall>q\<in>set pre. inWindow inp q \<and> quiet q"
    and "inWindow inp p" and "targetPressed (p_btn p)"
  shows "\<exists>s'. runEnGarde_exit inp s = Some (FalseStart, s') \<and> runEnGarde inp s = Some s'
           \<and> totalGameScore s' = totalGameScore s - 500
           \<and> (- (2 ^ 31) + 500 \<le> sint (totalGameScore s) \<longrightarrow>
                 sint (totalGameScore s') = sint (totalGameScore s) - 500)
           \<and> currentRound s' = currentRound s \<and> gameState s' = gameState s
           \<and> (gameState s = 1 \<longrightarrow> loop inp s = Some s' \<and> loop next s' = runEnGarde next s')"
proof -
  from runEnGarde_exit_returns(1) [OF assms] obtain s' where
    ex: "runEnGarde_exit inp s = Some (FalseStart, s')"
    by blast
  note f = runEnGarde_exit_fields [OF ex]
  have "runEnGarde inp s = Some s'"
    by (simp add: runEnGarde_def ex)
  moreover from f have "totalGameScore s' = totalGameScore s - 500"
    by simp
  moreover from this have "- (2 ^ 31) + 500 \<le> sint (totalGameScore s) \<longrightarrow>
      sint (totalGameScore s') = sint (totalGameScore s) - 500"
    by (simp add: sint_minus_500)
  moreover from f have "currentRound s' = currentRound s" "gameState s' = gameState s"
    by simp_all
  moreover from this \<open>runEnGarde inp s = Some s'\<close>
  have "gameState s = 1 \<longrightarrow> loop inp s = Some s' \<and> loop next s' = runEnGarde next s'"
    by (simp add: loop_def)
  ultimately show ?thesis
    using ex by blast
qed

theorem false_start_penalty_witness:
  "\<exists>s'. runEnGarde_exit earlyPress (boot\<lparr>gameState := 1, currentRound := 3\<rparr>) = Some (FalseStart, s')
     \<and> loop earlyPress (boot\<lparr>gameState := 1, currentRound := 3\<rparr>) = Some s'
     \<and> sint (totalGameScore s') = - 500 \<and> currentRound s' = 3 \<and> gameState s' = 1"
  using false_start_penalty [OF earlyPress_hyps(1-5), of "boot\<lparr>gameState := 1, currentRound := 3\<rparr>" idle]
  by (auto simp: boot_def)

text \<open>
  Claim C10. Within one iteration of the delay loop the three target buttons are checked
  before the joystick switch. When a poll inside the window has the switch pressed and a
  target button pressed too, \<open>runEnGarde\<close> returns through the false-start branch: 500 is
  subtracted, \<open>gameState\<close> and \<open>currentRound\<close> are unchanged, the penalty outputs follow
  the read of a target button directly (the switch is not read in between), and
  nothing of \<open>cancelGame\<close> is logged. With no target button pressed the same poll
  cancels the game.
\<close>

theorem false_start_checked_before_cancel:
  assumes "gateOpens (in_gate inp)" and "in_polls inp = pre @ p # post"
    and "\<forall>q\<in>set pre. inWindow inp q \<and> quiet q"
    and "inWindow inp p" and "p_joy p = LOW"
  shows "(targetPressed (p_btn p) \<longrightarrow>
          (\<exists>s'. runEnGarde_exit inp s = Some (FalseStart, s')
             \<and> totalGameScore s' = totalGameScore s - 500
             \<and> gameState s' = gameState s \<and> currentRound s' = currentRound s
             \<and> LcdPrint ''CANCELADO'' \<notin> set (newEvents s s')
             \<and> SetGameState 0 \<notin> set (newEvents s s')
             \<and> (\<exists>evs. \<exists>i\<in>set [0..<numTargets].
                   newEvents s s' = evs @ [Input (Button i), Tone 100 400, LcdSetCursor 0 1,
                                          LcdPrint ''  FALTA! -500   '', Delay 1500])))
       \<and> (\<not> targetPressed (p_btn p) \<longrightarrow>
          (\<exists>s'. runEnGarde_exit inp s = Some (Cancelled, s')
             \<and> totalGameScore s' = totalGameScore s \<and> gameState s' = 0))"
proof (intro conjI impI)
  assume pressed: "targetPressed (p_btn p)"
  from runEnGarde_exit_returns(1) [OF assms(1-4) pressed] obtain s' where
    ex: "runEnGarde_exit inp s = Some (FalseStart, s')"
    by blast
  note f = runEnGarde_exit_fields [OF ex]
  from runEnGarde_exit_shape [OF ex] obtain evs i where
    evs: "\<forall>e\<in>set evs. isInput e \<or> e = Delay 10 \<or> e = Delay 200" "evs \<noteq> []" and
    i: "i \<in> set [0..<numTargets]" "last evs = Input (Button i)" and
    s': "s' = falseStart (logged evs (enGardeScreen s))"
    by auto
  define screen where "screen =
     [LcdClear, LcdPrint ''Rnd '', LcdPrintNum (sint (currentRound s)), LcdPrint ''/'',
      LcdPrintNum (sint (totalRounds s)), LcdSetCursor 9 0, LcdPrint ''Pts:'',
      LcdPrintNum (sint (totalGameScore s)), LcdSetCursor 0 1, LcdPrint ''EN GARDE...'',
      LedWrite 0 LOW, LedWrite 1 LOW, LedWrite 2 LOW]"
  have tr: "trace s' = trace s @ (screen @ evs @
      [Tone 100 400, LcdSetCursor 0 1, LcdPrint ''  FALTA! -500   '', Delay 1500])"
    by (simp add: s' falseStart_trace enGardeScreen_trace screen_def)
  have new: "newEvents s s' = screen @ evs @
      [Tone 100 400, LcdSetCursor 0 1, LcdPrint ''  FALTA! -500   '', Delay 1500]"
    by (rule newEvents_logged [OF tr])
  have no_cancel: "LcdPrint ''CANCELADO'' \<notin> set evs" "SetGameState 0 \<notin> set evs"
    using evs(1) by auto
  have split: "evs = butlast evs @ [Input (Button i)]"
    using evs(2) i(2) by (metis append_butlast_last_id)
  have "newEvents s s' = (screen @ butlast evs) @ [Input (Button i), Tone 100 400,
      LcdSetCursor 0 1, LcdPrint ''  FALTA! -500   '', Delay 1500]"
    by (subst new, subst split) simp
  with i(1) have tail: "\<exists>evs. \<exists>i\<in>set [0..<numTargets].
      newEvents s s' = evs @ [Input (Button i), Tone 100 400, LcdSetCursor 0 1,
                             LcdPrint ''  FALTA! -500   '', Delay 1500]"
    by blast
  have "LcdPrint ''CANCELADO'' \<notin> set (newEvents s s')" "SetGameState 0 \<notin> set (newEvents s s')"
    using no_cancel by (simp_all add: new screen_def)
  with ex f tail show "\<exists>s'. runEnGarde_exit inp s = Some (FalseStart, s')
             \<and> totalGameScore s' = totalGameScore s - 500
             \<and> gameState s' = gameState s \<and> currentRound s' = currentRound s
             \<and> LcdPrint ''CANCELADO'' \<notin> set (newEvents s s')
             \<and> SetGameState 0 \<notin> set (newEvents s s')
             \<and> (\<exists>evs. \<exists>i\<in>set [0..<numTargets].
                   newEvents s s' = evs @ [Input (Button i), Tone 100 400, LcdSetCursor 0 1,
                                          LcdPrint ''  FALTA! -500   '', Delay 1500])"
    by auto
next
  assume released: "\<not> targetPressed (p_btn p)"
  from runEnGarde_exit_returns(2) [OF assms(1-4) released assms(5)] obtain s' where
    ex: "runEnGarde_exit inp s = Some (Cancelled, s')"
    by blast
  from runEnGarde_exit_fields [OF ex] ex
  show "\<exists>s'. runEnGarde_exit inp s = Some (Cancelled, s')
             \<and> totalGameScore s' = totalGameScore s \<and> gameState s' = 0"
    by auto
qed

theorem false_start_checked_before_cancel_witness:
  "\<exists>s'. runEnGarde_exit earlyPress (boot\<lparr>gameState := 1\<rparr>) = Some (FalseStart, s')
     \<and> totalGameScore s' = - 500 \<and> gameState s' = 1
     \<and> LcdPrint ''CANCELADO'' \<notin> set (newEvents (boot\<lparr>gameState := 1\<rparr>) s')"
  using false_start_checked_before_cancel [OF earlyPress_hyps(1-4) earlyPress_hyps(6),
      of "boot\<lparr>gameState := 1\<rparr>"] earlyPress_hyps(5)
  by (auto simp: boot_def)

section \<open>The round counter\<close>

text \<open>
  Claim C8, as the code has it. In every state reached from start-up in which a game is
  in progress (states 1 to 4) \<open>currentRound\<close> does not exceed \<open>totalRounds\<close>. In the
  result state, \<open>currentRound < totalRounds\<close> increments the counter and returns to the
  preparation; otherwise the counter is left alone and the state becomes 4 by a single
  assignment. From state 4 a pass of \<open>loop\<close> stays in state 4 or returns to the menu, never
  assigning state 4 again.
\<close>

theorem round_counter_within_game:
  "(run inps (setup_sketch boot) = Some s \<and> inGame s \<longrightarrow> currentRound s \<le>s totalRounds s)
   \<and> (gameState t = 3 \<longrightarrow> loop inp t = Some (stateResult t))
   \<and> (currentRound t <s totalRounds t \<longrightarrow>
        sint (currentRound (stateResult t)) = sint (currentRound t) + 1
        \<and> gameState (stateResult t) = 1)
   \<and> (\<not> currentRound t <s totalRounds t \<longrightarrow>
        currentRound (stateResult t) = currentRound t \<and> gameState (stateResult t) = 4
        \<and> filter isStateChange (newEvents t (stateResult t)) = [SetGameState 4])
   \<and> (gameState t = 4 \<longrightarrow>
        loop inp t = Some (stateGameOver inp t)
        \<and> currentRound (stateGameOver inp t) = currentRound t
        \<and> (gameState (stateGameOver inp t) = 4 \<or> gameState (stateGameOver inp t) = 0)
        \<and> SetGameState 4 \<notin> set (filter isStateChange (newEvents t (stateGameOver inp t))))"
proof (intro conjI impI)
  assume "run inps (setup_sketch boot) = Some s \<and> inGame s"
  then have r: "run inps (setup_sketch boot) = Some s" and g: "inGame s"
    by simp_all
  have "inGame s \<longrightarrow> currentRound s \<le>s totalRounds s"
    by (rule run_round_inv [OF r]) (simp_all add: setup_sketch_view inGame_def word_sle_eq)
  with g show "currentRound s \<le>s totalRounds s"
    by simp
next
  assume "gameState t = 3"
  then show "loop inp t = Some (stateResult t)"
    by (simp add: loop_def)
next
  assume lt: "currentRound t <s totalRounds t"
  then show "gameState (stateResult t) = 1"
    by simp
  have "sint (totalRounds t) < 32768"
    using sint_lt [of "totalRounds t"] by simp
  with lt have "sint (currentRound t) < 32767"
    by (simp add: word_sless_alt)
  with lt show "sint (currentRound (stateResult t)) = sint (currentRound t) + 1"
    by (simp add: sint_inc)
next
  assume ge: "\<not> currentRound t <s totalRounds t"
  then show "currentRound (stateResult t) = currentRound t" "gameState (stateResult t) = 4"
    by simp_all
  from ge show "filter isStateChange (newEvents t (stateResult t)) = [SetGameState 4]"
    by (simp add: stateResult_changes)
next
  assume four: "gameState t = 4"
  then show "loop inp t = Some (stateGameOver inp t)"
    by (simp add: loop_def)
  show "currentRound (stateGameOver inp t) = currentRound t"
    by simp
  from four show "gameState (stateGameOver inp t) = 4 \<or> gameState (stateGameOver inp t) = 0"
    by simp
  show "SetGameState 4 \<notin> set (filter isStateChange (newEvents t (stateGameOver inp t)))"
    by (simp only: stateGameOver_changes) simp
qed

theorem round_counter_within_game_witness:
  "(\<exists>s. run [pressSelect] (setup_sketch boot) = Some s \<and> inGame s
        \<and> currentRound s \<le>s totalRounds s)
   \<and> sint (currentRound (stateResult (boot\<lparr>gameState := 3\<rparr>))) = 2
   \<and> gameState (stateResult (boot\<lparr>gameState := 3\<rparr>)) = 1
   \<and> gameState (stateResult (boot\<lparr>gameState := 3, currentRound := 10\<rparr>)) = 4
   \<and> loop idle (boot\<lparr>gameState := 4\<rparr>) = Some (stateGameOver idle (boot\<lparr>gameState := 4\<rparr>))"
proof -
  from tick_pressSelect [of "setup_sketch boot"] setup_sketch_view obtain s1 where
    l1: "loop pressSelect (setup_sketch boot) = Some s1" and v1: "gameState s1 = 1"
    by auto
  then have r: "run [pressSelect] (setup_sketch boot) = Some s1" and g: "inGame s1"
    by (simp_all add: inGame_def)
  with round_counter_within_game [of "[pressSelect]" s1 "boot\<lparr>gameState := 3\<rparr>" idle]
  have "\<exists>s. run [pressSelect] (setup_sketch boot) = Some s \<and> inGame s
        \<and> currentRound s \<le>s totalRounds s"
    by blast
  moreover have "sint (currentRound (stateResult (boot\<lparr>gameState := 3\<rparr>))) = 2"
    "gameState (stateResult (boot\<lparr>gameState := 3\<rparr>)) = 1"
    using round_counter_within_game [of "[]" boot "boot\<lparr>gameState := 3\<rparr>" idle]
    by (simp_all add: boot_def word_sless_alt)
  moreover have "gameState (stateResult (boot\<lparr>gameState := 3, currentRound := 10\<rparr>)) = 4"
    using round_counter_within_game [of "[]" boot "boot\<lparr>gameState := 3, currentRound := 10\<rparr>" idle]
    by (simp add: boot_def word_sless_alt)
  moreover have "loop idle (boot\<lparr>gameState := 4\<rparr>) = Some (stateGameOver idle (boot\<lparr>gameState := 4\<rparr>))"
    using round_counter_within_game [of "[]" boot "boot\<lparr>gameState := 4\<rparr>" idle]
    by (simp add: boot_def)
  ultimately show ?thesis
    by blast
qed

text \<open>
  Claim C8, as stated for every reachable state, fails in the menu: after a game
  cancelled in its second round, nine accepted steps to the left bring \<open>totalRounds\<close> to
  1 while \<open>currentRound\<close> is still 2. \<open>startNewGame\<close> resets the counter before the next
  game.
\<close>

theorem stale_round_after_cancel:
  "map_option (\<lambda>s. (gameState s, currentRound s, totalRounds s))
     (run cancelledThenShortened (setup_sketch boot)) = Some (0, 2, 1)"
  using stale_round_reached by auto

section \<open>The order of outputs, inputs and state changes\<close>




end
